theory Spec2Isabelle
  imports Complex_Main "HOL-Library.Word"
begin

section \<open>JavaScript strings\<close>

text \<open>
  A JavaScript string is a sequence of UTF-16 code units; \<open>length\<close>, \<open>startsWith\<close> and
  the regular expressions of the server all work on code units.  String literals of the
  source are ASCII and are written \<open>js ''...''\<close>.
\<close>

type_synonym code_unit = "16 word"
type_synonym jsstring = "code_unit list"

definition js :: "string \<Rightarrow> jsstring" where
  "js s = map (\<lambda>c. of_nat (of_char c)) s"

text \<open>\<open>s.startsWith(p)\<close>.\<close>

definition startsWith :: "jsstring \<Rightarrow> jsstring \<Rightarrow> bool" where
  "startsWith s p = (take (length p) s = p)"

section \<open>Image records\<close>

text \<open>
  The objects the extractor returns (server, \<open>extractImagesFromPage\<close>): after the final
  \<open>map\<close> the dimensions are strings, either \<open>Natural\<close> or a number followed by \<open>px\<close>;
  \<open>type\<close> is one of \<open>img\<close>, \<open>source\<close>, \<open>background\<close>, \<open>svg\<close>.
\<close>

record image_record =
  url :: jsstring
  width :: jsstring
  height :: jsstring
  alt :: jsstring
  type :: jsstring

section \<open>URL resolution (\<open>resolveUrl\<close>)\<close>

text \<open>
  \<open>resolveUrl\<close> is a closure over \<open>pageUrl\<close> and \<open>baseUrl = new URL(pageUrl)\<close>.  The
  browser's \<open>URL\<close> class is not part of the repository, so it is a parameter:
  \<open>URL_href src base\<close> is \<open>new URL(src, base).href\<close>, and \<open>None\<close> when the constructor
  throws; \<open>origin\<close> is \<open>baseUrl.origin\<close>.  A thrown error is caught and the raw string
  returned.  \<open>!src\<close> holds of a string exactly when it is empty.
\<close>

definition resolveUrl ::
  "(jsstring \<Rightarrow> jsstring \<Rightarrow> jsstring option) \<Rightarrow> jsstring \<Rightarrow> jsstring \<Rightarrow> jsstring \<Rightarrow> jsstring"
where
  "resolveUrl URL_href origin pageUrl src =
     (if src = [] \<or> startsWith src (js ''data:'') then src
      else if startsWith src (js ''http'') then src
      else if startsWith src (js ''//'') then js ''https:'' @ src
      else if startsWith src (js ''/'') then origin @ src
      else (case URL_href src pageUrl of Some href \<Rightarrow> href | None \<Rightarrow> src))"

text \<open>The two shapes of resolved URL the specification names.\<close>

definition is_data_uri :: "jsstring \<Rightarrow> bool" where
  "is_data_uri u = startsWith u (js ''data:'')"

definition is_absolute_http :: "jsstring \<Rightarrow> bool" where
  "is_absolute_http u = (startsWith u (js ''http://'') \<or> startsWith u (js ''https://''))"

text \<open>
  A stand-in for the \<open>URL\<close> class in the examples below, for the page
  \<open>https://example.com/gallery/\<close>.  It answers only for the candidates the examples use:
  for the two plain file names it gives the href the URL parser computes (the base's
  directory followed by the name), and for \<open>ftp://\<close>, a special scheme with an empty
  host, the constructor throws.
\<close>

definition example_page :: jsstring where
  "example_page = js ''https://example.com/gallery/''"

definition example_origin :: jsstring where
  "example_origin = js ''https://example.com''"

definition example_URL_href :: "jsstring \<Rightarrow> jsstring \<Rightarrow> jsstring option" where
  "example_URL_href src base =
     (if base = example_page \<and> (src = js ''photo.jpg'' \<or> src = js ''http-banner.png'')
      then Some (base @ src) else None)"

section \<open>Merging the two viewport passes\<close>

text \<open>
  A JavaScript \<open>Map\<close> keeps its entries in insertion order; \<open>set\<close> on a key that is
  present replaces the value in place, on a new key it appends the entry.
\<close>

type_synonym ('k, 'v) jsmap = "('k \<times> 'v) list"

fun map_set :: "('k, 'v) jsmap \<Rightarrow> 'k \<Rightarrow> 'v \<Rightarrow> ('k, 'v) jsmap" where
  "map_set [] k v = [(k, v)]"
| "map_set ((k', v') # m) k v =
     (if k' = k then (k, v) # m else (k', v') # map_set m k v)"

definition map_has :: "('k, 'v) jsmap \<Rightarrow> 'k \<Rightarrow> bool" where
  "map_has m k = (k \<in> set (map fst m))"

definition map_values :: "('k, 'v) jsmap \<Rightarrow> 'v list" where
  "map_values m = map snd m"

text \<open>
  Server, \<open>/api/scrape\<close>: \<open>desktopImages.forEach(img => allImages.set(img.url, img))\<close>,
  then the mobile loop, which inserts only absent keys and counts them, then
  \<open>Array.from(allImages.values())\<close>.
\<close>

definition insert_desktop :: "image_record list \<Rightarrow> (jsstring, image_record) jsmap" where
  "insert_desktop desktopImages =
     fold (\<lambda>img allImages. map_set allImages (url img) img) desktopImages []"

definition insert_mobile ::
  "image_record list \<Rightarrow> (jsstring, image_record) jsmap \<times> nat \<Rightarrow>
   (jsstring, image_record) jsmap \<times> nat"
where
  "insert_mobile mobileImages start =
     fold (\<lambda>img (allImages, newMobileImages).
             if \<not> map_has allImages (url img)
             then (map_set allImages (url img) img, newMobileImages + 1)
             else (allImages, newMobileImages))
       mobileImages start"

definition merge_viewports :: "image_record list \<Rightarrow> image_record list \<Rightarrow> image_record list \<times> nat" where
  "merge_viewports desktopImages mobileImages =
     (case insert_mobile mobileImages (insert_desktop desktopImages, 0) of
        (allImages, newMobileImages) \<Rightarrow> (map_values allImages, newMobileImages))"


text \<open>
  The order in which the keys of the merged map were first inserted: \<open>first_seen\<close> keeps
  the first occurrence of every element.
\<close>

definition first_seen :: "'a list \<Rightarrow> 'a list" where
  "first_seen xs = rev (remdups (rev xs))"

definition example_image :: "string \<Rightarrow> string \<Rightarrow> image_record" where
  "example_image u a =
     \<lparr>url = js u, width = js ''Natural'', height = js ''Natural'', alt = js a, type = js ''img''\<rparr>"

section \<open>Numbers and their rendering\<close>

text \<open>
  \<open>sizeInBytes\<close> is a JavaScript number.  Every value the server gives it is an integer
  (a string length, a \<open>Math.ceil\<close>, a \<open>byteLength\<close>, a \<open>parseInt\<close>) or \<open>NaN\<close>
  (\<open>parseInt\<close> of a string without digits).  \<open>Num n\<close> is the number with the integer
  value \<open>n\<close>; the model is exact for the integers a double holds exactly, which covers
  every magnitude below \<open>2^53\<close>.
\<close>

datatype jsnum = NaN | Num int

definition digit :: "nat \<Rightarrow> code_unit" where
  "digit d = of_nat (48 + d)"

text \<open>The decimal digits of a natural number (\<open>String(n)\<close> for an integer \<open>n\<close>).\<close>

function show_nat :: "nat \<Rightarrow> jsstring" where
  "show_nat n = (if n < 10 then [digit n] else show_nat (n div 10) @ [digit (n mod 10)])"
  by pat_completeness auto
termination
  by (relation "measure id") auto

declare show_nat.simps [simp del]

text \<open>
  \<open>x.toFixed(2)\<close> for a finite \<open>x\<close> of magnitude below \<open>10^21\<close> (ECMAScript,
  Number.prototype.toFixed): a minus sign for negative \<open>x\<close>, then the integer \<open>n\<close> for
  which \<open>n / 100 - |x|\<close> is closest to zero, the larger one on a tie, written with at
  least three digits and a point before the last two.
\<close>

definition fixed2_digits :: "nat \<Rightarrow> jsstring" where
  "fixed2_digits n = show_nat (n div 100) @ js ''.'' @ [digit (n mod 100 div 10), digit (n mod 10)]"

definition toFixed2 :: "real \<Rightarrow> jsstring" where
  "toFixed2 x =
     (if x < 0 then js ''-'' @ fixed2_digits (nat \<lfloor>- x * 100 + 1 / 2\<rfloor>)
      else fixed2_digits (nat \<lfloor>x * 100 + 1 / 2\<rfloor>))"

text \<open>
  Server, lines 333 to 338: \<open>(sizeInBytes / 1024).toFixed(2)\<close>,
  \<open>(sizeInBytes / (1024 * 1024)).toFixed(2)\<close> and the choice between them.  Dividing a
  double by a power of two is exact, so the quotient is the real quotient.  Every
  comparison with \<open>NaN\<close> is false, and \<open>NaN.toFixed(2)\<close> is \<open>NaN\<close>.
\<close>

definition sizeInKB :: "jsnum \<Rightarrow> jsstring" where
  "sizeInKB sizeInBytes =
     (case sizeInBytes of NaN \<Rightarrow> js ''NaN'' | Num n \<Rightarrow> toFixed2 (real_of_int n / 1024))"

definition sizeInMB :: "jsnum \<Rightarrow> jsstring" where
  "sizeInMB sizeInBytes =
     (case sizeInBytes of NaN \<Rightarrow> js ''NaN'' | Num n \<Rightarrow> toFixed2 (real_of_int n / (1024 * 1024)))"

definition js_greater :: "jsnum \<Rightarrow> int \<Rightarrow> bool" where
  "js_greater x k = (case x of NaN \<Rightarrow> False | Num n \<Rightarrow> n > k)"

text \<open>
  \<open>parseInt(s)\<close> without a radix (ECMAScript, parseInt): leading white space is
  skipped, a sign is read, \<open>0x\<close> or \<open>0X\<close> selects radix 16, and the longest run of
  digits of the radix is the value; with no digit the result is \<open>NaN\<close>.
\<close>

definition is_whitespace :: "code_unit \<Rightarrow> bool" where
  "is_whitespace c =
     (c \<in> {0x09, 0x0A, 0x0B, 0x0C, 0x0D, 0x20, 0xA0, 0x1680, 0x2028, 0x2029, 0x202F, 0x205F,
            0x3000, 0xFEFF} \<or> (0x2000 \<le> c \<and> c \<le> 0x200A))"

definition digit_value :: "code_unit \<Rightarrow> nat option" where
  "digit_value c =
     (if 0x30 \<le> c \<and> c \<le> 0x39 then Some (unat c - 0x30)
      else if 0x61 \<le> c \<and> c \<le> 0x7A then Some (unat c - 0x61 + 10)
      else if 0x41 \<le> c \<and> c \<le> 0x5A then Some (unat c - 0x41 + 10)
      else None)"

definition is_radix_digit :: "nat \<Rightarrow> code_unit \<Rightarrow> bool" where
  "is_radix_digit R c = (case digit_value c of None \<Rightarrow> False | Some d \<Rightarrow> d < R)"

definition radix_value :: "nat \<Rightarrow> jsstring \<Rightarrow> nat" where
  "radix_value R Z = foldl (\<lambda>acc c. acc * R + the (digit_value c)) 0 Z"

definition parseInt :: "jsstring \<Rightarrow> jsnum" where
  "parseInt string =
     (let S = dropWhile is_whitespace string;
          sign = (if startsWith S (js ''-'') then - 1 else 1 :: int);
          S1 = (if startsWith S (js ''-'') \<or> startsWith S (js ''+'') then drop 1 S else S);
          R = (if startsWith S1 (js ''0x'') \<or> startsWith S1 (js ''0X'') then 16 else 10 :: nat);
          S2 = (if R = 16 then drop 2 S1 else S1);
          Z = takeWhile (is_radix_digit R) S2
      in if Z = [] then NaN else Num (sign * int (radix_value R Z)))"


section \<open>Data URIs\<close>

text \<open>
  Without the \<open>s\<close> flag a dot of a regular expression matches every code unit but the
  four line terminators; a negated class such as \<open>[^;]\<close> matches them too.
\<close>

definition line_terminator :: "code_unit \<Rightarrow> bool" where
  "line_terminator c = (c = 0x0A \<or> c = 0x0D \<or> c = 0x2028 \<or> c = 0x2029)"

definition dot_plus :: "jsstring \<Rightarrow> bool" where
  "dot_plus s = (s \<noteq> [] \<and> list_all (\<lambda>c. \<not> line_terminator c) s)"

text \<open>
  What the two patterns accept, read off the regular expressions
  \<open>^data:([^;]+);base64,(.+)$\<close> and \<open>^data:([^,]+),(.+)$\<close>: the whole string is the
  concatenation of the pieces, in that order.
\<close>

definition base64_pattern :: "jsstring \<Rightarrow> jsstring \<Rightarrow> jsstring \<Rightarrow> bool" where
  "base64_pattern u g1 g2 =
     (u = js ''data:'' @ g1 @ js '';base64,'' @ g2 \<and> g1 \<noteq> [] \<and> list_all (\<lambda>c. c \<noteq> 0x3B) g1 \<and> dot_plus g2)"

definition data_pattern :: "jsstring \<Rightarrow> jsstring \<Rightarrow> jsstring \<Rightarrow> bool" where
  "data_pattern u g1 g2 =
     (u = js ''data:'' @ g1 @ js '','' @ g2 \<and> g1 \<noteq> [] \<and> list_all (\<lambda>c. c \<noteq> 0x2C) g1 \<and> dot_plus g2)"

text \<open>
  The matchers, returning the second group.  The first group cannot contain its
  terminator, so it ends at the terminator's first occurrence and the match, when there
  is one, is unique (\<open>base64Match_iff\<close> and \<open>dataMatch_iff\<close> below).
\<close>

definition base64Match :: "jsstring \<Rightarrow> jsstring option" where
  "base64Match u =
     (if startsWith u (js ''data:'') then
        (let g1 = takeWhile (\<lambda>c. c \<noteq> 0x3B) (drop 5 u);
             rest = dropWhile (\<lambda>c. c \<noteq> 0x3B) (drop 5 u)
         in if g1 \<noteq> [] \<and> startsWith rest (js '';base64,'') \<and> dot_plus (drop 8 rest)
            then Some (drop 8 rest) else None)
      else None)"

definition dataMatch :: "jsstring \<Rightarrow> jsstring option" where
  "dataMatch u =
     (if startsWith u (js ''data:'') then
        (let g1 = takeWhile (\<lambda>c. c \<noteq> 0x2C) (drop 5 u);
             rest = dropWhile (\<lambda>c. c \<noteq> 0x2C) (drop 5 u)
         in if g1 \<noteq> [] \<and> startsWith rest (js '','') \<and> dot_plus (drop 1 rest)
            then Some (drop 1 rest) else None)
      else None)"

subsection \<open>\<open>decodeURIComponent\<close>\<close>

text \<open>
  ECMAScript, Decode with an empty set of preserved escapes.  A code unit other than
  \<open>%\<close> is copied.  A \<open>%\<close> must be followed by two hexadecimal digits, which give an
  octet \<open>B\<close>; with \<open>n\<close> leading one bits in \<open>B\<close>, \<open>n = 0\<close> yields the code unit \<open>B\<close>,
  \<open>n = 1\<close> and \<open>n > 4\<close> are errors, and otherwise \<open>n - 1\<close> further escapes must follow
  and the octets must be the UTF-8 encoding of a code point, which is appended in
  UTF-16.  Every error is a \<open>URIError\<close>, here \<open>None\<close>.
\<close>

definition hex_value :: "code_unit \<Rightarrow> nat option" where
  "hex_value c = (case digit_value c of None \<Rightarrow> None | Some d \<Rightarrow> if d < 16 then Some d else None)"

fun hex_octet :: "jsstring \<Rightarrow> nat option" where
  "hex_octet (h # l # _) =
     (case hex_value h of None \<Rightarrow> None
      | Some a \<Rightarrow> (case hex_value l of None \<Rightarrow> None | Some b \<Rightarrow> Some (16 * a + b)))"
| "hex_octet _ = None"

definition leading_ones :: "nat \<Rightarrow> nat" where
  "leading_ones B =
     (if B < 0x80 then 0 else if B < 0xC0 then 1 else if B < 0xE0 then 2
      else if B < 0xF0 then 3 else if B < 0xF8 then 4 else 5)"

fun escaped_octets :: "nat \<Rightarrow> jsstring \<Rightarrow> (nat list \<times> jsstring) option" where
  "escaped_octets 0 s = Some ([], s)"
| "escaped_octets (Suc j) (p # h # l # rest) =
     (if p = 0x25 then
        (case hex_octet [h, l] of None \<Rightarrow> None
         | Some b \<Rightarrow> (case escaped_octets j rest of None \<Rightarrow> None
                      | Some (bs, r) \<Rightarrow> Some (b # bs, r)))
      else None)"
| "escaped_octets (Suc j) _ = None"

definition continuation :: "nat \<Rightarrow> bool" where
  "continuation b = (0x80 \<le> b \<and> b \<le> 0xBF)"

fun utf8_code_point :: "nat list \<Rightarrow> nat option" where
  "utf8_code_point [b0, b1] =
     (let V = (b0 - 0xC0) * 64 + (b1 - 0x80)
      in if continuation b1 \<and> 0x80 \<le> V then Some V else None)"
| "utf8_code_point [b0, b1, b2] =
     (let V = (b0 - 0xE0) * 4096 + (b1 - 0x80) * 64 + (b2 - 0x80)
      in if continuation b1 \<and> continuation b2 \<and> 0x800 \<le> V \<and> \<not> (0xD800 \<le> V \<and> V \<le> 0xDFFF)
         then Some V else None)"
| "utf8_code_point [b0, b1, b2, b3] =
     (let V = (b0 - 0xF0) * 262144 + (b1 - 0x80) * 4096 + (b2 - 0x80) * 64 + (b3 - 0x80)
      in if continuation b1 \<and> continuation b2 \<and> continuation b3 \<and> 0x10000 \<le> V \<and> V \<le> 0x10FFFF
         then Some V else None)"
| "utf8_code_point _ = None"

definition UTF16EncodeCodePoint :: "nat \<Rightarrow> jsstring" where
  "UTF16EncodeCodePoint V =
     (if V < 0x10000 then [of_nat V]
      else [of_nat (0xD800 + (V - 0x10000) div 1024), of_nat (0xDC00 + (V - 0x10000) mod 1024)])"

text \<open>One round of the loop: the code units it appends and the input that is left.\<close>

definition decode_step :: "jsstring \<Rightarrow> (jsstring \<times> jsstring) option" where
  "decode_step s =
     (case s of [] \<Rightarrow> None
      | C # cs \<Rightarrow>
          if C \<noteq> 0x25 then Some ([C], cs)
          else (case hex_octet cs of None \<Rightarrow> None
                | Some B \<Rightarrow>
                    if leading_ones B = 0 then Some ([of_nat B], drop 2 cs)
                    else if leading_ones B = 1 \<or> leading_ones B > 4 then None
                    else (case escaped_octets (leading_ones B - 1) (drop 2 cs) of None \<Rightarrow> None
                          | Some (Octets, rest) \<Rightarrow>
                              (case utf8_code_point (B # Octets) of None \<Rightarrow> None
                               | Some V \<Rightarrow> Some (UTF16EncodeCodePoint V, rest)))))"

lemma escaped_octets_length:
  "escaped_octets j s = Some (bs, r) \<Longrightarrow> length r \<le> length s"
proof (induction j s arbitrary: bs r rule: escaped_octets.induct)
  case (2 j p h l rest)
  then show ?case
    by (fastforce split: if_splits option.splits)
qed simp_all

lemma decode_step_shrinks:
  "decode_step s = Some (S, rest) \<Longrightarrow> length rest < length s"
  by (auto simp: decode_step_def split: list.splits if_splits option.splits
      dest!: escaped_octets_length)

function decodeURIComponent :: "jsstring \<Rightarrow> jsstring option" where
  "decodeURIComponent s =
     (if s = [] then Some []
      else (case decode_step s of None \<Rightarrow> None
            | Some (S, rest) \<Rightarrow>
                (case decodeURIComponent rest of None \<Rightarrow> None | Some R \<Rightarrow> Some (S @ R))))"
  by pat_completeness auto
termination
  by (relation "measure length") (auto dest: decode_step_shrinks)

declare decodeURIComponent.simps [simp del]


section \<open>Size probing\<close>

text \<open>A thrown JavaScript error, by its \<open>message\<close>.\<close>

datatype js_error = Error (message: jsstring)

text \<open>
  Server, lines 273 to 283.  \<open>Math.ceil((base64Data.length * 3) / 4)\<close> divides by a power
  of two, so the quotient is exact.  \<open>decodeURIComponent\<close> may throw; the error leaves
  the \<open>try\<close> block.
\<close>

definition data_uri_size :: "jsstring \<Rightarrow> js_error + jsnum" where
  "data_uri_size u =
     (case base64Match u of
        Some base64Data \<Rightarrow> Inr (Num \<lceil>real (length base64Data * 3) / 4\<rceil>)
      | None \<Rightarrow>
          (case dataMatch u of
             Some payload \<Rightarrow>
               (case decodeURIComponent payload of
                  None \<Rightarrow> Inl (Error (js ''URI malformed''))
                | Some decoded \<Rightarrow> Inr (Num (int (length decoded))))
           | None \<Rightarrow> Inr (Num 0)))"

text \<open>
  The network is not part of the repository.  For every image URL it gives what a
  \<open>HEAD\<close> and a \<open>GET\<close> request end in: no response at all (a network error, a
  timeout, too many redirects), or a response, of which the server reads the status and
  \<open>headers['content-length']\<close> (\<open>None\<close> when the header is absent), respectively the
  status and \<open>data.byteLength\<close>.
\<close>

record head_response =
  head_status :: nat
  content_length :: "jsstring option"

record get_response =
  get_status :: nat
  byteLength :: nat

datatype 'r http_result = NoResponse js_error | Response 'r

record network =
  http_head :: "jsstring \<Rightarrow> head_response http_result"
  http_get :: "jsstring \<Rightarrow> get_response http_result"

text \<open>
  \<open>validateStatus: (status) => status < 500\<close>: axios rejects a response whose status fails
  the test.
\<close>

definition validateStatus :: "nat \<Rightarrow> bool" where
  "validateStatus status = (status < 500)"

definition status_error :: "nat \<Rightarrow> js_error" where
  "status_error status = Error (js ''Request failed with status code '' @ show_nat status)"

definition axios_head :: "network \<Rightarrow> jsstring \<Rightarrow> js_error + head_response" where
  "axios_head net u =
     (case http_head net u of
        NoResponse e \<Rightarrow> Inl e
      | Response r \<Rightarrow> if validateStatus (head_status r) then Inr r else Inl (status_error (head_status r)))"

definition axios_get :: "network \<Rightarrow> jsstring \<Rightarrow> js_error + get_response" where
  "axios_get net u =
     (case http_get net u of
        NoResponse e \<Rightarrow> Inl e
      | Response r \<Rightarrow> if validateStatus (get_status r) then Inr r else Inl (status_error (get_status r)))"

text \<open>A header value is truthy when it is defined and not the empty string.\<close>

definition truthy :: "jsstring option \<Rightarrow> bool" where
  "truthy h = (case h of None \<Rightarrow> False | Some v \<Rightarrow> v \<noteq> [])"

text \<open>Server, lines 287 to 305: the body of the inner \<open>try\<close>.\<close>

definition head_size :: "network \<Rightarrow> jsstring \<Rightarrow> js_error + jsnum" where
  "head_size net u =
     (case axios_head net u of
        Inl e \<Rightarrow> Inl e
      | Inr response \<Rightarrow>
          if head_status response = 200 \<and> truthy (content_length response)
          then Inr (parseInt (the (content_length response)))
          else Inl (Error (js ''HEAD returned status '' @ show_nat (head_status response))))"

text \<open>
  Server, lines 308 to 325: the inner \<open>catch\<close>.  \<open>sizeInBytes\<close> is still 0 when the
  status is not 200; an error of \<open>axios.get\<close> leaves the outer \<open>try\<close> block.
\<close>

definition get_size :: "network \<Rightarrow> jsstring \<Rightarrow> js_error + jsnum" where
  "get_size net u =
     (case axios_get net u of
        Inl e \<Rightarrow> Inl e
      | Inr response \<Rightarrow> if get_status response = 200 then Inr (Num (int (byteLength response))) else Inr (Num 0))"

text \<open>The requests a probe issues are part of its result.\<close>

datatype request = HEAD jsstring | GET jsstring

definition fetch_size :: "network \<Rightarrow> jsstring \<Rightarrow> request list \<times> (js_error + jsnum)" where
  "fetch_size net u =
     (case head_size net u of
        Inr sizeInBytes \<Rightarrow> ([HEAD u], Inr sizeInBytes)
      | Inl headError \<Rightarrow> ([HEAD u, GET u], get_size net u))"

definition sizeInBytes_of :: "network \<Rightarrow> image_record \<Rightarrow> request list \<times> (js_error + jsnum)" where
  "sizeInBytes_of net img =
     (if startsWith (url img) (js ''data:'') then ([], data_uri_size (url img))
      else fetch_size net (url img))"

text \<open>
  The objects of the response: \<open>{ ...img, fileSize: ..., fileSizeBytes: ... }\<close> copies the
  five fields of \<open>img\<close> and adds two.
\<close>

record sized_image_record = image_record +
  fileSize :: jsstring
  fileSizeBytes :: jsnum

definition spread_with_size :: "image_record \<Rightarrow> jsstring \<Rightarrow> jsnum \<Rightarrow> sized_image_record" where
  "spread_with_size img fs fb =
     \<lparr>url = url img, width = width img, height = height img, alt = alt img, type = type img,
      fileSize = fs, fileSizeBytes = fb\<rparr>"

text \<open>Server, lines 329 to 340.\<close>

definition sized_record :: "image_record \<Rightarrow> jsnum \<Rightarrow> sized_image_record" where
  "sized_record img sizeInBytes =
     (if sizeInBytes = Num 0 then spread_with_size img (js ''Unknown'') (Num 0)
      else spread_with_size img
             (if js_greater sizeInBytes (1024 * 1024) then sizeInMB sizeInBytes @ js '' MB''
              else sizeInKB sizeInBytes @ js '' KB'')
             sizeInBytes)"

text \<open>
  Server, lines 268 to 345: the callback of \<open>images.map\<close>.  Its whole body is inside
  \<open>try\<close>, and the \<open>catch\<close> returns the record with an unknown size.  The result of an
  \<open>async\<close> function is a promise that is fulfilled (\<open>Inr\<close>) or rejected (\<open>Inl\<close>).
\<close>

definition probe_image :: "network \<Rightarrow> image_record \<Rightarrow> request list \<times> (js_error + sized_image_record)" where
  "probe_image net img =
     (case sizeInBytes_of net img of
        (requests, Inr sizeInBytes) \<Rightarrow> (requests, Inr (sized_record img sizeInBytes))
      | (requests, Inl error) \<Rightarrow> (requests, Inr (spread_with_size img (js ''Unknown'') (Num 0))))"

text \<open>
  \<open>Promise.all\<close>: fulfilled with all the values, in the order of the promises, when every
  promise is fulfilled, and rejected as soon as one is rejected.
\<close>

fun promise_all :: "(js_error + 'a) list \<Rightarrow> js_error + 'a list" where
  "promise_all [] = Inr []"
| "promise_all (Inl e # ps) = Inl e"
| "promise_all (Inr v # ps) = (case promise_all ps of Inl e \<Rightarrow> Inl e | Inr vs \<Rightarrow> Inr (v # vs))"

definition imagesWithSizes :: "network \<Rightarrow> image_record list \<Rightarrow> js_error + sized_image_record list" where
  "imagesWithSizes net images = promise_all (map (\<lambda>img. snd (probe_image net img)) images)"


subsection \<open>The words of the specification about a probe\<close>

text \<open>
  The specification's conditions on the responses, as predicates of the network: the
  \<open>HEAD\<close> response has status 200 and a content-length header (one the server's test
  \<open>response.headers['content-length']\<close> accepts, that is, not the empty string), and
  the \<open>GET\<close> response has status 200.
\<close>

definition head_ok :: "network \<Rightarrow> jsstring \<Rightarrow> bool" where
  "head_ok net u =
     (case http_head net u of
        NoResponse e \<Rightarrow> False
      | Response r \<Rightarrow> head_status r = 200 \<and> truthy (content_length r))"

definition get_ok :: "network \<Rightarrow> jsstring \<Rightarrow> bool" where
  "get_ok net u =
     (case http_get net u of NoResponse e \<Rightarrow> False | Response r \<Rightarrow> get_status r = 200)"

text \<open>
  ``Size determination failed or is unknowable'' (specification, sections 3 and 7): a
  data URI that matches neither pattern or whose payload cannot be decoded; for any other
  URL, a network error, a timeout or a status other than 200 on both requests, the
  \<open>HEAD\<close> request also failing when it carries no content length.
\<close>

definition size_determination_failed :: "network \<Rightarrow> image_record \<Rightarrow> bool" where
  "size_determination_failed net img =
     (if is_data_uri (url img)
      then base64Match (url img) = None \<and>
           (case dataMatch (url img) of None \<Rightarrow> True | Some payload \<Rightarrow> decodeURIComponent payload = None)
      else \<not> head_ok net (url img) \<and> \<not> get_ok net (url img))"

section \<open>The request handler\<close>

text \<open>
  Server, \<open>app.post('/api/scrape')\<close>.  The browser is not part of the repository; a
  request meets it through the outcomes of the awaited calls:
  \<^item> \<open>launch\<close>: \<open>getBrowser()\<close> returns, or throws the given error;
  \<^item> \<open>newPage v\<close>: \<open>browser.newPage()\<close> for the viewport returns a page, or throws;
  \<^item> \<open>render v\<close>: \<open>setViewport\<close>, \<open>setUserAgent\<close>, \<open>goto\<close>, \<open>waitForTimeout\<close>, the
    scroll and \<open>extractImagesFromPage\<close> on the page of the viewport yield the extracted
    records, or one of them throws (a navigation timeout or error among them);
  \<^item> \<open>reclose\<close>: what \<open>close()\<close> does on a page that is closed already: it returns
    (\<open>None\<close>) or throws the given error.  \<open>close()\<close> on an open page closes it.
  The state is the two variables \<open>desktopPage\<close> and \<open>mobilePage\<close> (\<open>null\<close> or a page,
  here whether they are set) and the set of pages that are open.
\<close>

datatype viewport = Desktop | Mobile

record browser =
  launch :: "js_error option"
  newPage :: "viewport \<Rightarrow> js_error option"
  render :: "viewport \<Rightarrow> js_error + image_record list"
  reclose :: "js_error option"

record handler_state =
  desktopPage :: bool
  mobilePage :: bool
  open_pages :: "viewport set"

definition close_page :: "browser \<Rightarrow> viewport \<Rightarrow> viewport set \<Rightarrow> js_error + viewport set" where
  "close_page b v pages =
     (if v \<in> pages then Inr (pages - {v})
      else (case reclose b of None \<Rightarrow> Inr pages | Some e \<Rightarrow> Inl e))"

datatype response_body =
  ErrorBody jsstring
| ImagesBody "sized_image_record list" nat

text \<open>
  The \<open>try\<close> block from \<open>getBrowser()\<close> to \<open>res.json\<close>: the state it ends in, and the
  response it sends or the error it throws.
\<close>

definition try_block :: "browser \<Rightarrow> network \<Rightarrow> handler_state \<times> (js_error + nat \<times> response_body)" where
  "try_block b net =
     (let s0 = \<lparr>desktopPage = False, mobilePage = False, open_pages = {}\<rparr> in
      case launch b of Some e \<Rightarrow> (s0, Inl e) | None \<Rightarrow>
      case newPage b Desktop of Some e \<Rightarrow> (s0, Inl e) | None \<Rightarrow>
      let s1 = s0\<lparr>desktopPage := True, open_pages := {Desktop}\<rparr> in
      case render b Desktop of Inl e \<Rightarrow> (s1, Inl e) | Inr desktopImages \<Rightarrow>
      case close_page b Desktop (open_pages s1) of Inl e \<Rightarrow> (s1, Inl e) | Inr pages2 \<Rightarrow>
      let s2 = s1\<lparr>open_pages := pages2\<rparr> in
      case newPage b Mobile of Some e \<Rightarrow> (s2, Inl e) | None \<Rightarrow>
      let s3 = s2\<lparr>mobilePage := True, open_pages := insert Mobile pages2\<rparr> in
      case render b Mobile of Inl e \<Rightarrow> (s3, Inl e) | Inr mobileImages \<Rightarrow>
      case close_page b Mobile (open_pages s3) of Inl e \<Rightarrow> (s3, Inl e) | Inr pages4 \<Rightarrow>
      let s4 = s3\<lparr>open_pages := pages4\<rparr> in
      case imagesWithSizes net (fst (merge_viewports desktopImages mobileImages)) of
        Inl e \<Rightarrow> (s4, Inl e)
      | Inr sized \<Rightarrow> (s4, Inr (200, ImagesBody sized (length sized))))"

text \<open>
  What a request ends in: the response that was sent, if any, the pages still open, and
  the error the handler itself threw, if any (nothing catches it, and no response is
  sent).
\<close>

record outcome =
  response :: "(nat \<times> response_body) option"
  left_open :: "viewport set"
  uncaught :: "js_error option"

text \<open>Server, lines 353 to 358: the \<open>catch\<close> block.\<close>

definition catch_block :: "browser \<Rightarrow> handler_state \<Rightarrow> js_error \<Rightarrow> outcome" where
  "catch_block b s error =
     (case (if desktopPage s then close_page b Desktop (open_pages s) else Inr (open_pages s)) of
        Inl e \<Rightarrow> \<lparr>response = None, left_open = open_pages s, uncaught = Some e\<rparr>
      | Inr pages1 \<Rightarrow>
          (case (if mobilePage s then close_page b Mobile pages1 else Inr pages1) of
             Inl e \<Rightarrow> \<lparr>response = None, left_open = pages1, uncaught = Some e\<rparr>
           | Inr pages2 \<Rightarrow>
               \<lparr>response = Some (500, ErrorBody (js ''Failed to scrape images: '' @ message error)),
                left_open = pages2, uncaught = None\<rparr>))"

text \<open>\<open>req.body.url\<close> is a string or absent; \<open>!url\<close> holds when it is absent or empty.\<close>

definition scrape :: "browser \<Rightarrow> network \<Rightarrow> jsstring option \<Rightarrow> outcome" where
  "scrape b net body_url =
     (if \<not> truthy body_url
      then \<lparr>response = Some (400, ErrorBody (js ''URL is required'')), left_open = {}, uncaught = None\<rparr>
      else (case try_block b net of
              (s, Inr sent) \<Rightarrow> \<lparr>response = Some sent, left_open = open_pages s, uncaught = None\<rparr>
            | (s, Inl error) \<Rightarrow> catch_block b s error))"


section \<open>Examples\<close>

text \<open>
  A network for the examples: \<open>a.png\<close> answers \<open>HEAD\<close> with 200 and a content length of
  2048; \<open>b.png\<close> answers \<open>HEAD\<close> with 404 and \<open>GET\<close> with 200 and 1536 bytes;
  \<open>c.png\<close> answers \<open>HEAD\<close> with 404 and its \<open>GET\<close> times out; \<open>empty.png\<close> answers
  \<open>HEAD\<close> with 200 and a content length of 0; every other request gets no response.
\<close>

definition example_network :: network where
  "example_network =
     \<lparr>http_head = (\<lambda>u.
        if u = js ''https://example.com/a.png''
        then Response \<lparr>head_status = 200, content_length = Some (js ''2048'')\<rparr>
        else if u = js ''https://example.com/b.png'' \<or> u = js ''https://example.com/c.png''
        then Response \<lparr>head_status = 404, content_length = None\<rparr>
        else if u = js ''https://example.com/empty.png''
        then Response \<lparr>head_status = 200, content_length = Some (js ''0'')\<rparr>
        else NoResponse (Error (js ''getaddrinfo ENOTFOUND''))),
      http_get = (\<lambda>u.
        if u = js ''https://example.com/b.png''
        then Response \<lparr>get_status = 200, byteLength = 1536\<rparr>
        else if u = js ''https://example.com/c.png''
        then NoResponse (Error (js ''timeout of 15000ms exceeded''))
        else NoResponse (Error (js ''getaddrinfo ENOTFOUND'')))\<rparr>"

text \<open>
  A browser for the examples, given by what the two renders end in and by what \<open>close()\<close>
  does on a closed page; it launches and opens pages without error.
\<close>

definition example_browser ::
  "(js_error + image_record list) \<Rightarrow> (js_error + image_record list) \<Rightarrow> js_error option \<Rightarrow> browser"
where
  "example_browser desktop mobile again =
     \<lparr>launch = None, newPage = (\<lambda>v. None),
      render = (\<lambda>v. case v of Desktop \<Rightarrow> desktop | Mobile \<Rightarrow> mobile),
      reclose = again\<rparr>"

section \<open>The merge keeps one record per URL, the desktop one first\<close>

lemma keys_map_set:
  "map fst (map_set m k v) = (if k \<in> set (map fst m) then map fst m else map fst m @ [k])"
  by (induction m) force+

lemma keys_set_map_set: "fst ` set (map_set m k v) = insert k (fst ` set m)"
  using arg_cong [OF keys_map_set [of m k v], of set] by (auto split: if_splits)

lemma map_set_absent: "k \<notin> set (map fst m) \<Longrightarrow> map_set m k v = m @ [(k, v)]"
  by (induction m) auto

lemma set_map_set_subset: "set (map_set m k v) \<subseteq> insert (k, v) (set m)"
  by (induction m) (auto split: if_splits)

lemma remdups_drop_later: "x \<in> set ys \<Longrightarrow> remdups (xs @ x # ys) = remdups (xs @ ys)"
  by (induction xs) auto

lemma first_seen_snoc_old: "k \<in> set K \<Longrightarrow> first_seen (K @ k # rest) = first_seen (K @ rest)"
  by (simp add: first_seen_def remdups_drop_later)

lemma remdups_append_remdups: "remdups (xs @ remdups ys) = remdups (xs @ ys)"
  by (induction xs) auto

lemma first_seen_append_first_seen: "first_seen (first_seen xs @ ys) = first_seen (xs @ ys)"
  by (simp add: first_seen_def remdups_append_remdups)

lemma first_seen_distinct: "distinct xs \<Longrightarrow> first_seen xs = xs"
  by (simp add: first_seen_def distinct_remdups_id)

lemma keys_desktop_fold:
  assumes "distinct (map fst m)"
  shows "map fst (fold (\<lambda>img allImages. map_set allImages (url img) img) xs m) =
     first_seen (map fst m @ map url xs)"
  using assms
proof (induction xs arbitrary: m)
  case Nil
  then show ?case by (simp add: first_seen_distinct)
next
  case (Cons x xs)
  have d: "distinct (map fst (map_set m (url x) x))"
    using Cons.prems by (simp add: keys_map_set)
  show ?case
    using Cons.IH [OF d] by (simp add: keys_map_set first_seen_snoc_old)
qed

lemma keys_mobile_fold:
  assumes "distinct (map fst m)"
  shows "map fst (fst (insert_mobile xs (m, n))) = first_seen (map fst m @ map url xs)"
  using assms
proof (induction xs arbitrary: m n)
  case Nil
  then show ?case by (simp add: insert_mobile_def first_seen_distinct)
next
  case (Cons x xs)
  show ?case
  proof (cases "map_has m (url x)")
    case True
    then have "insert_mobile (x # xs) (m, n) = insert_mobile xs (m, n)"
      by (simp add: insert_mobile_def)
    with True Cons.IH [OF Cons.prems, of n] show ?thesis
      by (simp add: map_has_def first_seen_snoc_old)
  next
    case False
    then have e: "insert_mobile (x # xs) (m, n) = insert_mobile xs (map_set m (url x) x, n + 1)"
      by (simp add: insert_mobile_def)
    have d: "distinct (map fst (map_set m (url x) x))"
      using Cons.prems by (simp add: keys_map_set)
    from False Cons.IH [OF d, of "n + 1"] show ?thesis
      unfolding e by (simp add: map_has_def keys_map_set)
  qed
qed

lemma count_mobile_fold:
  "snd (insert_mobile xs (m, n)) = n + card (url ` set xs - set (map fst m))"
proof (induction xs arbitrary: m n)
  case Nil
  then show ?case by (simp add: insert_mobile_def)
next
  case (Cons x xs)
  show ?case
  proof (cases "map_has m (url x)")
    case True
    then have e: "insert_mobile (x # xs) (m, n) = insert_mobile xs (m, n)"
      by (simp add: insert_mobile_def)
    from True have "insert (url x) (url ` set xs) - set (map fst m) = url ` set xs - set (map fst m)"
      by (auto simp: map_has_def)
    with Cons.IH [of m n] show ?thesis unfolding e by simp
  next
    case False
    then have e: "insert_mobile (x # xs) (m, n) = insert_mobile xs (map_set m (url x) x, n + 1)"
      by (simp add: insert_mobile_def)
    let ?K = "set (map fst m)"
    from False have k: "set (map fst (map_set m (url x) x)) = insert (url x) ?K" and nk: "url x \<notin> ?K"
      by (auto simp: map_has_def keys_map_set)
    have s: "insert (url x) (url ` set xs) - ?K = insert (url x) (url ` set xs - insert (url x) ?K)"
      using nk by auto
    have "card (insert (url x) (url ` set xs) - ?K) = Suc (card (url ` set xs - insert (url x) ?K))"
      unfolding s by (rule card_insert_disjoint) auto
    with Cons.IH [of "map_set m (url x) x" "n + 1"] show ?thesis
      unfolding e k by simp
  qed
qed

lemma desktop_fold_entries:
  assumes "\<forall>(k, v) \<in> set m. k = url v \<and> v \<in> D" "set xs \<subseteq> D"
  shows "\<forall>(k, v) \<in> set (fold (\<lambda>img allImages. map_set allImages (url img) img) xs m). k = url v \<and> v \<in> D"
  using assms
proof (induction xs arbitrary: m)
  case Nil
  then show ?case by simp
next
  case (Cons x xs)
  have "\<forall>(k, v) \<in> set (map_set m (url x) x). k = url v \<and> v \<in> D"
    using Cons.prems set_map_set_subset [of m "url x" x] by auto
  with Cons.IH [of "map_set m (url x) x"] Cons.prems show ?case by simp
qed

lemma desktop_fold_keys_set:
  "fst ` set (fold (\<lambda>img allImages. map_set allImages (url img) img) xs m) = fst ` set m \<union> url ` set xs"
  by (induction xs arbitrary: m) (auto simp: keys_set_map_set)

lemma mobile_fold_entries:
  assumes "\<forall>(k, v) \<in> set m. k = url v \<and> (v \<in> D \<or> (v \<in> M \<and> url v \<notin> K))"
    and "set xs \<subseteq> M" and "K \<subseteq> set (map fst m)"
  shows "\<forall>(k, v) \<in> set (fst (insert_mobile xs (m, n))). k = url v \<and> (v \<in> D \<or> (v \<in> M \<and> url v \<notin> K))"
  using assms
proof (induction xs arbitrary: m n)
  case Nil
  then show ?case by (simp add: insert_mobile_def)
next
  case (Cons x xs)
  show ?case
  proof (cases "map_has m (url x)")
    case True
    then have e: "insert_mobile (x # xs) (m, n) = insert_mobile xs (m, n)"
      by (simp add: insert_mobile_def)
    show ?thesis unfolding e using Cons.IH [of m n] Cons.prems by simp
  next
    case False
    then have e: "insert_mobile (x # xs) (m, n) = insert_mobile xs (map_set m (url x) x, n + 1)"
      by (simp add: insert_mobile_def)
    from False Cons.prems(3) have nk: "url x \<notin> K"
      by (auto simp: map_has_def)
    have 1: "\<forall>(k, v) \<in> set (map_set m (url x) x). k = url v \<and> (v \<in> D \<or> (v \<in> M \<and> url v \<notin> K))"
      using Cons.prems(1,2) nk set_map_set_subset [of m "url x" x] by auto
    have 2: "K \<subseteq> set (map fst (map_set m (url x) x))"
      using Cons.prems(3) by (auto simp: keys_map_set)
    show ?thesis unfolding e using Cons.IH [OF 1 _ 2, of "n + 1"] Cons.prems(2) by simp
  qed
qed


lemma desktop_fold_distinct:
  assumes "distinct (map fst m @ map url xs)"
  shows "fold (\<lambda>img allImages. map_set allImages (url img) img) xs m = m @ map (\<lambda>r. (url r, r)) xs"
  using assms
proof (induction xs arbitrary: m)
  case Nil
  then show ?case by simp
next
  case (Cons x xs)
  from Cons.prems have a: "url x \<notin> set (map fst m)" by auto
  from Cons.prems have "distinct (map fst (m @ [(url x, x)]) @ map url xs)" by auto
  from Cons.IH [OF this] a show ?case by (simp add: map_set_absent)
qed

lemma mobile_fold_distinct:
  assumes "distinct (map url xs)"
  shows "insert_mobile xs (m, n) =
     (m @ map (\<lambda>r. (url r, r)) (filter (\<lambda>r. url r \<notin> fst ` set m) xs),
      n + length (filter (\<lambda>r. url r \<notin> fst ` set m) xs))"
  using assms
proof (induction xs arbitrary: m n)
  case Nil
  then show ?case by (simp add: insert_mobile_def)
next
  case (Cons x xs)
  from Cons.prems have dx: "distinct (map url xs)" and nx: "url x \<notin> url ` set xs" by auto
  show ?case
  proof (cases "map_has m (url x)")
    case True
    then have e: "insert_mobile (x # xs) (m, n) = insert_mobile xs (m, n)"
      by (simp add: insert_mobile_def)
    from True show ?thesis unfolding e Cons.IH [OF dx] by (simp add: map_has_def)
  next
    case False
    then have e: "insert_mobile (x # xs) (m, n) = insert_mobile xs (m @ [(url x, x)], n + 1)"
      by (simp add: insert_mobile_def map_has_def map_set_absent)
    have f: "filter (\<lambda>r. url r \<notin> fst ` set (m @ [(url x, x)])) xs = filter (\<lambda>r. url r \<notin> fst ` set m) xs"
    proof (rule filter_cong [OF refl])
      fix r assume "r \<in> set xs"
      with nx have "url r \<noteq> url x" by (metis imageI)
      then show "(url r \<notin> fst ` set (m @ [(url x, x)])) = (url r \<notin> fst ` set m)" by simp
    qed
    from False show ?thesis unfolding e Cons.IH [OF dx] f by (simp add: map_has_def)
  qed
qed

lemma merge_viewports_distinct:
  assumes "distinct (map url d)" "distinct (map url m)"
  shows "merge_viewports d m =
     (d @ filter (\<lambda>r. url r \<notin> url ` set d) m, length (filter (\<lambda>r. url r \<notin> url ` set d) m))"
proof -
  have 1: "insert_desktop d = map (\<lambda>r. (url r, r)) d"
    using desktop_fold_distinct [of "[]" d] assms(1) by (simp add: insert_desktop_def)
  have 2: "fst ` set (map (\<lambda>r. (url r, r)) d) = url ` set d"
    by force
  show ?thesis
    unfolding merge_viewports_def 1 mobile_fold_distinct [OF assms(2)] 2
    by (simp add: map_values_def comp_def)
qed

lemma merge_viewports_keys:
  "map url (fst (merge_viewports d m)) = first_seen (map url d @ map url m)"
proof -
  let ?all = "insert_desktop d"
  let ?fin = "fst (insert_mobile m (?all, 0))"
  have kd: "map fst ?all = first_seen (map url d)"
    using keys_desktop_fold [of "[]" d] by (simp add: insert_desktop_def)
  have dd: "distinct (map fst ?all)"
    unfolding kd by (simp add: first_seen_def)
  have km: "map fst ?fin = first_seen (map fst ?all @ map url m)"
    by (rule keys_mobile_fold [OF dd])
  have ent: "\<forall>(k, v) \<in> set ?all. k = url v \<and> v \<in> set d"
    unfolding insert_desktop_def by (rule desktop_fold_entries) auto
  have ent2: "\<forall>(k, v) \<in> set ?fin. k = url v \<and> (v \<in> set d \<or> (v \<in> set m \<and> url v \<notin> {}))"
    by (rule mobile_fold_entries) (use ent in auto)
  then have "map url (map snd ?fin) = map fst ?fin"
    by (auto simp: map_eq_conv)
  moreover have "first_seen (first_seen (map url d) @ map url m) = first_seen (map url d @ map url m)"
    by (rule first_seen_append_first_seen)
  ultimately show ?thesis
    unfolding merge_viewports_def by (simp add: split_beta map_values_def km kd)
qed


lemma merge_viewports_origin:
  assumes "r \<in> set (fst (merge_viewports d m))"
  shows "(url r \<in> url ` set d \<longrightarrow> r \<in> set d) \<and> (url r \<notin> url ` set d \<longrightarrow> r \<in> set m)"
proof -
  let ?all = "insert_desktop d"
  let ?fin = "fst (insert_mobile m (?all, 0))"
  have ent: "\<forall>(k, v) \<in> set ?all. k = url v \<and> v \<in> set d"
    unfolding insert_desktop_def by (rule desktop_fold_entries) auto
  have keys: "url ` set d \<subseteq> set (map fst ?all)"
    using desktop_fold_keys_set [of d "[]"] by (simp add: insert_desktop_def)
  have "\<forall>(k, v) \<in> set ?fin. k = url v \<and> (v \<in> set d \<or> (v \<in> set m \<and> url v \<notin> url ` set d))"
    by (rule mobile_fold_entries [OF _ _ keys]) (use ent in auto)
  moreover from assms have "r \<in> snd ` set ?fin"
    by (simp add: merge_viewports_def split_beta map_values_def)
  ultimately show ?thesis by force
qed

lemma merge_viewports_count:
  "snd (merge_viewports d m) = card (url ` set m - url ` set d)"
proof -
  have "set (map fst (insert_desktop d)) = url ` set d"
    using desktop_fold_keys_set [of d "[]"] by (simp add: insert_desktop_def)
  then show ?thesis
    using count_mobile_fold [of m "insert_desktop d" 0]
    by (simp add: merge_viewports_def split_beta)
qed

text \<open>
  Claim C1.  The merged list has one record per URL; its URLs are those of the desktop
  pass followed by those of the mobile pass, each at its first occurrence, so every
  desktop record is inserted before any mobile record.  A record whose URL occurs in the
  desktop pass is a desktop record, any other record is a mobile record, and the counter
  is the number of URLs only the mobile pass has.  When no pass repeats a URL (the
  extractor never does), the result is the desktop list followed by the mobile records
  with a new URL.  In particular desktop \<open>A, B\<close> and mobile \<open>B', C\<close>, where \<open>B'\<close> has
  the URL of \<open>B\<close>, give \<open>A, B, C\<close> and the count 1.
\<close>

theorem merge_viewports_dedup:
  "distinct (map url (fst (merge_viewports d m)))
   \<and> map url (fst (merge_viewports d m)) = first_seen (map url d @ map url m)
   \<and> (\<forall>r \<in> set (fst (merge_viewports d m)).
         (url r \<in> url ` set d \<longrightarrow> r \<in> set d) \<and> (url r \<notin> url ` set d \<longrightarrow> r \<in> set m))
   \<and> snd (merge_viewports d m) = card (url ` set m - url ` set d)
   \<and> (distinct (map url d) \<and> distinct (map url m) \<longrightarrow>
        merge_viewports d m =
          (d @ filter (\<lambda>r. url r \<notin> url ` set d) m,
           length (filter (\<lambda>r. url r \<notin> url ` set d) m)))
   \<and> (url A \<noteq> url B \<and> url A \<noteq> url C \<and> url B \<noteq> url C \<and> url B' = url B \<longrightarrow>
        merge_viewports [A, B] [B', C] = ([A, B, C], 1))"
proof -
  have 1: "distinct (map url (fst (merge_viewports d m)))"
    unfolding merge_viewports_keys by (simp add: first_seen_def)
  have 6: "merge_viewports [A, B] [B', C] = ([A, B, C], 1)"
    if "url A \<noteq> url B \<and> url A \<noteq> url C \<and> url B \<noteq> url C \<and> url B' = url B"
    using that merge_viewports_distinct [of "[A, B]" "[B', C]"] by auto
  show ?thesis
    using 1 merge_viewports_keys [of d m] merge_viewports_origin [of _ d m]
      merge_viewports_count [of d m] merge_viewports_distinct [of d m] 6
    by blast
qed

theorem merge_viewports_dedup_witness:
  "merge_viewports
     [example_image ''https://example.com/a.png'' ''desktop A'',
      example_image ''https://example.com/b.png'' ''desktop B'']
     [example_image ''https://example.com/b.png'' ''mobile B'',
      example_image ''https://example.com/c.png'' ''mobile C'']
   = ([example_image ''https://example.com/a.png'' ''desktop A'',
       example_image ''https://example.com/b.png'' ''desktop B'',
       example_image ''https://example.com/c.png'' ''mobile C''], 1)"
  using merge_viewports_dedup
    [of "[example_image ''https://example.com/a.png'' ''desktop A'',
          example_image ''https://example.com/b.png'' ''desktop B'']"
        "[example_image ''https://example.com/b.png'' ''mobile B'',
          example_image ''https://example.com/c.png'' ''mobile C'']"
        "example_image ''https://example.com/a.png'' ''desktop A''"
        "example_image ''https://example.com/b.png'' ''desktop B''"
        "example_image ''https://example.com/c.png'' ''mobile C''"
        "example_image ''https://example.com/b.png'' ''mobile B''"]
  by (simp add: example_image_def js_def)

section \<open>What \<open>resolveUrl\<close> returns\<close>

lemma startsWith_Cons: "startsWith s (c # p) = (case s of [] \<Rightarrow> False | d # t \<Rightarrow> d = c \<and> startsWith t p)"
  by (cases s) (auto simp: startsWith_def)

lemma startsWith_Nil [simp]: "startsWith s []"
  by (simp add: startsWith_def)

lemma startsWith_append: "startsWith s p \<Longrightarrow> startsWith (s @ t) p"
  by (metis append_eq_conv_conj append.assoc startsWith_def)

lemma startsWith_prepend: "startsWith (p @ s) p"
  by (simp add: startsWith_def)

lemma http_prefixes: "is_absolute_http s \<Longrightarrow> startsWith s (js ''http'')"
  by (auto simp: is_absolute_http_def js_def startsWith_Cons split: list.splits)

lemma slash_not_scheme:
  "startsWith s (js ''/'') \<Longrightarrow> \<not> startsWith s (js ''data:'') \<and> \<not> startsWith s (js ''http'') \<and> s \<noteq> []"
  by (auto simp: js_def startsWith_Cons split: list.splits)

lemma data_not_http: "startsWith s (js ''data:'') \<Longrightarrow> \<not> startsWith s (js ''http'')"
  by (auto simp: js_def startsWith_Cons split: list.splits)

lemma double_slash: "startsWith s (js ''//'') \<Longrightarrow> startsWith s (js ''/'')"
  by (auto simp: js_def startsWith_Cons split: list.splits)

text \<open>
  The test of line 59 is a test of the first four code units: every value that starts
  with \<open>http\<close> is returned as it is, an absolute URL or not.
\<close>

lemma resolveUrl_http_prefix:
  "startsWith src (js ''http'') \<Longrightarrow> resolveUrl U origin page src = src"
  by (simp add: resolveUrl_def)

text \<open>
  Every case of \<open>resolveUrl\<close>: the empty string, a \<open>data:\<close> URI and every value that
  starts with \<open>http\<close>, the absolute http(s) URLs among them, are returned unchanged; a
  value that starts with \<open>//\<close> gets \<open>https:\<close> in front, a value that starts with a
  single \<open>/\<close> gets the page origin in front, and any other value is what the URL parser
  gives for it against the page's URL, or the value itself when the parser throws.
\<close>

lemma resolveUrl_cases:
  "(src = [] \<longrightarrow> resolveUrl U origin page src = [])
   \<and> (is_data_uri src \<longrightarrow> resolveUrl U origin page src = src)
   \<and> (is_absolute_http src \<longrightarrow> resolveUrl U origin page src = src)
   \<and> (startsWith src (js ''http'') \<longrightarrow> resolveUrl U origin page src = src)
   \<and> (startsWith src (js ''//'') \<longrightarrow> resolveUrl U origin page src = js ''https:'' @ src)
   \<and> (startsWith src (js ''/'') \<and> \<not> startsWith src (js ''//'') \<longrightarrow>
        resolveUrl U origin page src = origin @ src)
   \<and> (src \<noteq> [] \<and> \<not> is_data_uri src \<and> \<not> startsWith src (js ''http'') \<and> \<not> startsWith src (js ''/'') \<longrightarrow>
        resolveUrl U origin page src = (case U src page of Some href \<Rightarrow> href | None \<Rightarrow> src))"
proof -
  have 2: "resolveUrl U origin page src = src" if "is_absolute_http src"
    using http_prefixes [OF that] by (simp add: resolveUrl_def)
  have 3: "resolveUrl U origin page src = js ''https:'' @ src" if "startsWith src (js ''//'')"
    using that slash_not_scheme [OF double_slash [OF that]] by (simp add: resolveUrl_def)
  have 4: "resolveUrl U origin page src = origin @ src"
    if "startsWith src (js ''/'') \<and> \<not> startsWith src (js ''//'')"
    using that slash_not_scheme [of src] by (simp add: resolveUrl_def)
  have 5: "resolveUrl U origin page src = (case U src page of Some href \<Rightarrow> href | None \<Rightarrow> src)"
    if "src \<noteq> [] \<and> \<not> is_data_uri src \<and> \<not> startsWith src (js ''http'') \<and> \<not> startsWith src (js ''/'')"
    using that double_slash [of src] by (auto simp: resolveUrl_def is_data_uri_def)
  show ?thesis
    using 2 3 4 5 by (simp add: resolveUrl_def is_data_uri_def)
qed

lemma resolveUrl_cases_examples:
  "resolveUrl example_URL_href example_origin example_page (js ''data:image/png;base64,QUJD'') = js ''data:image/png;base64,QUJD''
   \<and> resolveUrl example_URL_href example_origin example_page (js ''https://cdn.example.com/a.png'') = js ''https://cdn.example.com/a.png''
   \<and> resolveUrl example_URL_href example_origin example_page (js ''//cdn.example.com/a.png'') = js ''https://cdn.example.com/a.png''
   \<and> resolveUrl example_URL_href example_origin example_page (js ''/img/a.png'') = js ''https://example.com/img/a.png''
   \<and> resolveUrl example_URL_href example_origin example_page (js ''photo.jpg'') = js ''https://example.com/gallery/photo.jpg''
   \<and> resolveUrl example_URL_href example_origin example_page (js ''ftp://'') = js ''ftp://''"
  using resolveUrl_cases [where src = "js ''data:image/png;base64,QUJD''" and U = example_URL_href and origin = example_origin and page = example_page]
    resolveUrl_cases [where src = "js ''https://cdn.example.com/a.png''" and U = example_URL_href and origin = example_origin and page = example_page]
    resolveUrl_cases [where src = "js ''//cdn.example.com/a.png''" and U = example_URL_href and origin = example_origin and page = example_page]
    resolveUrl_cases [where src = "js ''/img/a.png''" and U = example_URL_href and origin = example_origin and page = example_page]
    resolveUrl_cases [where src = "js ''photo.jpg''" and U = example_URL_href and origin = example_origin and page = example_page]
    resolveUrl_cases [where src = "js ''ftp://''" and U = example_URL_href and origin = example_origin and page = example_page]
  by (simp add: js_def startsWith_def is_data_uri_def is_absolute_http_def example_URL_href_def
      example_origin_def example_page_def)

text \<open>
  Claim C3, at the input where it fails.  A relative path that starts with \<open>http\<close> is
  neither a \<open>data:\<close> URI nor an absolute http(s) URL nor \<open>/\<close>-prefixed, so it is one of
  the other values, which are to be resolved relative to the page's URL, as line 62
  does: here to \<open>https://example.com/gallery/http-banner.png\<close>.  The test of line 59,
  meant for absolute URLs, accepts it, and \<open>resolveUrl\<close> returns it as it is.
\<close>

theorem resolveUrl_relative_http_unresolved:
  "\<not> is_data_uri (js ''http-banner.png'') \<and> \<not> is_absolute_http (js ''http-banner.png'')
   \<and> \<not> startsWith (js ''http-banner.png'') (js ''/'')
   \<and> example_URL_href (js ''http-banner.png'') example_page = Some (js ''https://example.com/gallery/http-banner.png'')
   \<and> resolveUrl example_URL_href example_origin example_page (js ''http-banner.png'') = js ''http-banner.png''
   \<and> resolveUrl example_URL_href example_origin example_page (js ''http-banner.png'')
       \<noteq> js ''https://example.com/gallery/http-banner.png''"
  by (simp add: js_def startsWith_def is_data_uri_def is_absolute_http_def example_URL_href_def
      example_page_def resolveUrl_def)

text \<open>
  Claim C2, amended.  For a candidate that is not empty: a \<open>data:\<close> URI resolves to a
  \<open>data:\<close> URI; an absolute http(s) URL and a value that starts with \<open>//\<close> resolve to an
  absolute http(s) URL, and so does a value that starts with \<open>/\<close> when the page origin
  is http(s); any other value that does not start with \<open>http\<close> resolves to what the URL
  parser returns for it, and to the raw string when the parser throws.
\<close>

theorem resolveUrl_shape:
  "src \<noteq> [] \<longrightarrow>
     (is_data_uri src \<longrightarrow> is_data_uri (resolveUrl U origin page src))
   \<and> (is_absolute_http src \<or> startsWith src (js ''//'') \<longrightarrow> is_absolute_http (resolveUrl U origin page src))
   \<and> (startsWith src (js ''/'') \<and> is_absolute_http origin \<longrightarrow> is_absolute_http (resolveUrl U origin page src))
   \<and> (\<not> is_data_uri src \<and> \<not> startsWith src (js ''http'') \<and> \<not> startsWith src (js ''/'') \<longrightarrow>
        (case U src page of
           Some href \<Rightarrow> resolveUrl U origin page src = href
         | None \<Rightarrow> resolveUrl U origin page src = src))"
proof -
  have 1: "is_data_uri (resolveUrl U origin page src)" if "is_data_uri src"
    using that by (simp add: resolveUrl_def is_data_uri_def)
  have 2: "is_absolute_http (resolveUrl U origin page src)" if "is_absolute_http src"
    using that http_prefixes [OF that] by (simp add: resolveUrl_def)
  have 3: "is_absolute_http (resolveUrl U origin page src)" if "startsWith src (js ''//'')"
  proof -
    have "resolveUrl U origin page src = js ''https:'' @ src"
      using that slash_not_scheme [OF double_slash [OF that]] by (simp add: resolveUrl_def)
    moreover have "startsWith (js ''https:'' @ src) (js ''https://'')"
      using that by (auto simp: js_def startsWith_Cons split: list.splits)
    ultimately show ?thesis by (simp add: is_absolute_http_def)
  qed
  have 4: "is_absolute_http (resolveUrl U origin page src)"
    if "startsWith src (js ''/'') \<and> is_absolute_http origin"
  proof (cases "startsWith src (js ''//'')")
    case True
    then show ?thesis by (rule 3)
  next
    case False
    with that slash_not_scheme [of src] have "resolveUrl U origin page src = origin @ src"
      by (simp add: resolveUrl_def)
    with that show ?thesis
      by (auto simp: is_absolute_http_def intro: startsWith_append)
  qed
  have 5: "(case U src page of
           Some href \<Rightarrow> resolveUrl U origin page src = href
         | None \<Rightarrow> resolveUrl U origin page src = src)"
    if "src \<noteq> []" "\<not> is_data_uri src \<and> \<not> startsWith src (js ''http'') \<and> \<not> startsWith src (js ''/'')"
    using that double_slash [of src] by (auto simp: resolveUrl_def is_data_uri_def split: option.splits)
  show ?thesis
    using 1 2 3 4 5 by blast
qed

theorem resolveUrl_shape_witness:
  "is_data_uri (resolveUrl example_URL_href example_origin example_page (js ''data:image/png;base64,QUJD''))
   \<and> is_absolute_http (resolveUrl example_URL_href example_origin example_page (js ''//cdn.example.com/a.png''))
   \<and> is_absolute_http (resolveUrl example_URL_href example_origin example_page (js ''/img/a.png''))
   \<and> resolveUrl example_URL_href example_origin example_page (js ''photo.jpg'') = js ''https://example.com/gallery/photo.jpg''
   \<and> resolveUrl example_URL_href example_origin example_page (js ''ftp://'') = js ''ftp://''"
  using resolveUrl_shape [where src = "js ''data:image/png;base64,QUJD''" and U = example_URL_href and origin = example_origin and page = example_page]
    resolveUrl_shape [where src = "js ''//cdn.example.com/a.png''" and U = example_URL_href and origin = example_origin and page = example_page]
    resolveUrl_shape [where src = "js ''/img/a.png''" and U = example_URL_href and origin = example_origin and page = example_page]
    resolveUrl_shape [where src = "js ''photo.jpg''" and U = example_URL_href and origin = example_origin and page = example_page]
    resolveUrl_shape [where src = "js ''ftp://''" and U = example_URL_href and origin = example_origin and page = example_page]
  by (simp add: js_def startsWith_def is_data_uri_def is_absolute_http_def example_URL_href_def
      example_origin_def example_page_def)

text \<open>
  The claim as stated fails: a relative path that starts with \<open>http\<close> and a string the
  URL parser rejects are both returned as they are, and neither is an absolute http(s)
  URL or a \<open>data:\<close> URI.
\<close>

theorem resolveUrl_shape_counterexample:
  "resolveUrl example_URL_href example_origin example_page (js ''http-banner.png'') = js ''http-banner.png''
   \<and> \<not> is_absolute_http (js ''http-banner.png'') \<and> \<not> is_data_uri (js ''http-banner.png'')
   \<and> resolveUrl example_URL_href example_origin example_page (js ''ftp://'') = js ''ftp://''
   \<and> \<not> is_absolute_http (js ''ftp://'') \<and> \<not> is_data_uri (js ''ftp://'')"
  by (simp add: js_def startsWith_def is_data_uri_def is_absolute_http_def example_URL_href_def
      example_page_def resolveUrl_def)

section \<open>How a size is shown\<close>

lemma fileSize_sized_record:
  "fileSize (sized_record img s) =
     (if s = Num 0 then js ''Unknown''
      else if js_greater s (1024 * 1024) then sizeInMB s @ js '' MB''
      else sizeInKB s @ js '' KB'')"
  by (simp add: sized_record_def spread_with_size_def)

lemma show_nat_small: "n < 10 \<Longrightarrow> show_nat n = [digit n]"
  by (simp add: show_nat.simps)

lemma fileSizeBytes_sized_record: "fileSizeBytes (sized_record img s) = s"
  by (simp add: sized_record_def spread_with_size_def)

lemma decimal_split: "100 * (k div 100) + 10 * (k mod 100 div 10) + k mod 10 = (k::nat)"
proof -
  have 1: "k mod 100 mod 10 = k mod 10" by (simp add: mod_mod_cancel)
  have 2: "10 * (k mod 100 div 10) + k mod 100 mod 10 = k mod 100" by simp
  have 3: "100 * (k div 100) + k mod 100 = k" by simp
  from 1 2 3 show ?thesis by linarith
qed

lemma decimal_digits: "(m::nat) mod 100 div 10 < 10" "m mod 10 < 10"
  by (rule less_mult_imp_div_less) simp_all

lemma toFixed2_two_decimals:
  assumes "0 \<le> x"
  shows "\<exists>k a b. a < 10 \<and> b < 10 \<and> toFixed2 x = show_nat k @ js ''.'' @ [digit a, digit b]
           \<and> \<bar>real (100 * k + 10 * a + b) / 100 - x\<bar> \<le> 1 / 200"
proof -
  define m where "m = nat \<lfloor>x * 100 + 1 / 2\<rfloor>"
  have nn: "0 \<le> \<lfloor>x * 100 + 1 / 2\<rfloor>" using assms by simp
  then have m: "real m = of_int \<lfloor>x * 100 + 1 / 2\<rfloor>" by (simp add: m_def)
  have "real m \<le> x * 100 + 1 / 2" "x * 100 + 1 / 2 < real m + 1"
    unfolding m by linarith+
  then have close: "\<bar>real m / 100 - x\<bar> \<le> 1 / 200" by (intro abs_leI) linarith+
  have "toFixed2 x = show_nat (m div 100) @ js ''.'' @ [digit (m mod 100 div 10), digit (m mod 10)]"
    using assms by (simp add: toFixed2_def fixed2_digits_def m_def)
  moreover have "m mod 100 div 10 < 10" "m mod 10 < 10" by (rule decimal_digits)+
  moreover have "\<bar>real (100 * (m div 100) + 10 * (m mod 100 div 10) + m mod 10) / 100 - x\<bar> \<le> 1 / 200"
    unfolding decimal_split by (rule close)
  ultimately show ?thesis by blast
qed

lemma digit_value_digit: "d < 10 \<Longrightarrow> digit_value (digit d) = Some d"
proof -
  assume "d < 10"
  then consider "d = 0" | "d = 1" | "d = 2" | "d = 3" | "d = 4" | "d = 5" | "d = 6" | "d = 7"
    | "d = 8" | "d = 9" by atomize_elim arith
  then show ?thesis
    by cases (simp_all add: digit_value_def digit_def)
qed

lemma radix_value_snoc: "radix_value R (Z @ [c]) = radix_value R Z * R + the (digit_value c)"
  by (simp add: radix_value_def)

lemma radix_value_show_nat: "radix_value 10 (show_nat k) = k"
proof (induction k rule: show_nat.induct)
  case (1 n)
  show ?case
  proof (cases "n < 10")
    case True
    then show ?thesis
      by (simp add: show_nat.simps [of n] radix_value_def digit_value_digit)
  next
    case False
    with 1 have "radix_value 10 (show_nat (n div 10)) = n div 10" by simp
    with False show ?thesis
      by (simp add: show_nat.simps [of n] radix_value_snoc digit_value_digit)
  qed
qed

text \<open>
  Claim C4, amended.  A size of 0 is shown as \<open>Unknown\<close>; a size above 1,048,576 bytes
  is shown in MB and a size from 1 to 1,048,576 bytes, the bound included, in KB.  The
  number shown has two decimals and differs from the quotient by at most half a
  hundredth; \<open>show_nat\<close> writes the decimal digits \<open>parseInt\<close> reads back.
\<close>

theorem fileSize_thresholds:
  "(n = 0 \<longrightarrow> fileSize (sized_record img (Num (int n))) = js ''Unknown'')
   \<and> (1048576 < n \<longrightarrow>
        fileSize (sized_record img (Num (int n))) = toFixed2 (real n / 1048576) @ js '' MB'')
   \<and> (0 < n \<and> n \<le> 1048576 \<longrightarrow>
        fileSize (sized_record img (Num (int n))) = toFixed2 (real n / 1024) @ js '' KB'')
   \<and> (\<exists>k a b. a < 10 \<and> b < 10 \<and> toFixed2 (real n / real d) = show_nat k @ js ''.'' @ [digit a, digit b]
          \<and> radix_value 10 (show_nat k) = k
          \<and> \<bar>real (100 * k + 10 * a + b) / 100 - real n / real d\<bar> \<le> 1 / 200)"
proof -
  have 1: "fileSize (sized_record img (Num (int n))) = js ''Unknown''" if "n = 0"
    using that by (simp add: fileSize_sized_record)
  have 2: "fileSize (sized_record img (Num (int n))) = toFixed2 (real n / 1048576) @ js '' MB''"
    if "1048576 < n"
    using that by (simp add: fileSize_sized_record js_greater_def sizeInMB_def)
  have 3: "fileSize (sized_record img (Num (int n))) = toFixed2 (real n / 1024) @ js '' KB''"
    if "0 < n \<and> n \<le> 1048576"
    using that by (simp add: fileSize_sized_record js_greater_def sizeInKB_def)
  have "0 \<le> real n / real d" by simp
  from toFixed2_two_decimals [OF this] radix_value_show_nat
  have 4: "\<exists>k a b. a < 10 \<and> b < 10 \<and> toFixed2 (real n / real d) = show_nat k @ js ''.'' @ [digit a, digit b]
          \<and> radix_value 10 (show_nat k) = k
          \<and> \<bar>real (100 * k + 10 * a + b) / 100 - real n / real d\<bar> \<le> 1 / 200"
    by metis
  show ?thesis using 1 2 3 4 by blast
qed

theorem fileSize_thresholds_witness:
  "fileSize (sized_record (example_image ''https://example.com/a.png'' ''A'') (Num 0)) = js ''Unknown''
   \<and> fileSize (sized_record (example_image ''https://example.com/a.png'' ''A'') (Num 1048577)) = js ''1.00 MB''
   \<and> fileSize (sized_record (example_image ''https://example.com/a.png'' ''A'') (Num 5242880)) = js ''5.00 MB''
   \<and> fileSize (sized_record (example_image ''https://example.com/a.png'' ''A'') (Num 1536)) = js ''1.50 KB''
   \<and> fileSize (sized_record (example_image ''https://example.com/a.png'' ''A'') (Num 1)) = js ''0.00 KB''"
proof -
  let ?img = "example_image ''https://example.com/a.png'' ''A''"
  have 0: "fileSize (sized_record ?img (Num 0)) = js ''Unknown''"
    using fileSize_thresholds [where n = 0 and img = ?img, THEN conjunct1] by simp
  have 1: "fileSize (sized_record ?img (Num 1048577)) = js ''1.00 MB''"
    using fileSize_thresholds [where n = 1048577 and img = ?img, THEN conjunct2, THEN conjunct1]
    by (simp add: toFixed2_def fixed2_digits_def show_nat_small js_def digit_def)
  have 2: "fileSize (sized_record ?img (Num 5242880)) = js ''5.00 MB''"
    using fileSize_thresholds [where n = 5242880 and img = ?img, THEN conjunct2, THEN conjunct1]
    by (simp add: toFixed2_def fixed2_digits_def show_nat_small js_def digit_def)
  have 3: "fileSize (sized_record ?img (Num 1536)) = js ''1.50 KB''"
    using fileSize_thresholds [where n = 1536 and img = ?img, THEN conjunct2, THEN conjunct2, THEN conjunct1]
    by (simp add: toFixed2_def fixed2_digits_def show_nat_small js_def digit_def)
  have 4: "fileSize (sized_record ?img (Num 1)) = js ''0.00 KB''"
    using fileSize_thresholds [where n = 1 and img = ?img, THEN conjunct2, THEN conjunct2, THEN conjunct1]
    by (simp add: toFixed2_def fixed2_digits_def show_nat_small js_def digit_def)
  from 0 1 2 3 4 show ?thesis by simp
qed

text \<open>
  The claim as stated fails at exactly 1,048,576 bytes: the test is
  \<open>sizeInBytes > 1024 * 1024\<close>, so the size is shown in KB.
\<close>

theorem fileSize_thresholds_counterexample:
  "fileSize (sized_record (example_image ''https://example.com/a.png'' ''A'') (Num 1048576)) = js ''1024.00 KB''
   \<and> fileSize (sized_record (example_image ''https://example.com/a.png'' ''A'') (Num 1048576)) \<noteq> js ''1.00 MB''"
  by (simp add: fileSize_sized_record js_greater_def sizeInKB_def toFixed2_def fixed2_digits_def
      show_nat.simps js_def digit_def)

section \<open>What the two patterns match\<close>

lemma length_literals:
  "length (js ''data:'') = 5" "length (js '';base64,'') = 8" "length (js '','') = 1"
  by (simp_all add: js_def)

lemma startsWith_iff: "startsWith s p \<longleftrightarrow> (\<exists>t. s = p @ t)"
  by (metis append_eq_conv_conj append_take_drop_id startsWith_def)

lemma startsWith_drop: "startsWith s p \<Longrightarrow> s = p @ drop (length p) s"
  by (metis append_take_drop_id startsWith_def)

lemma takeWhile_until:
  "list_all P g \<Longrightarrow> \<not> P c \<Longrightarrow> takeWhile P (g @ c # t) = g"
  by (induction g) auto

lemma dropWhile_until:
  "list_all P g \<Longrightarrow> \<not> P c \<Longrightarrow> dropWhile P (g @ c # t) = c # t"
  by (induction g) auto

lemma list_all_takeWhile: "list_all P (takeWhile P xs)"
  by (induction xs) auto

lemma js_semicolon: "js '';base64,'' = 0x3B # js ''base64,''"
  by (simp add: js_def)

lemma js_comma: "js '','' = [0x2C]"
  by (simp add: js_def)

lemma base64Match_pattern:
  assumes "base64_pattern u g1 g2"
  shows "base64Match u = Some g2"
proof -
  from assms have u: "u = js ''data:'' @ g1 @ js '';base64,'' @ g2"
    and g1: "g1 \<noteq> []" "list_all (\<lambda>c. c \<noteq> 0x3B) g1" and g2: "dot_plus g2"
    by (simp_all add: base64_pattern_def)
  have d: "drop 5 u = g1 @ 0x3B # js ''base64,'' @ g2"
    unfolding u js_semicolon by (simp add: length_literals)
  have t: "takeWhile (\<lambda>c. c \<noteq> 0x3B) (drop 5 u) = g1"
    unfolding d by (rule takeWhile_until [OF g1(2)]) simp
  have r: "dropWhile (\<lambda>c. c \<noteq> 0x3B) (drop 5 u) = js '';base64,'' @ g2"
    unfolding d js_semicolon using dropWhile_until [OF g1(2), of "0x3B"] by simp
  have s: "startsWith u (js ''data:'')"
    unfolding u by (simp add: startsWith_def)
  show ?thesis
    unfolding base64Match_def t r using s g1(1) g2 by (simp add: startsWith_def length_literals)
qed

lemma base64Match_Some:
  assumes "base64Match u = Some g2"
  shows "\<exists>g1. base64_pattern u g1 g2"
proof -
  let ?g1 = "takeWhile (\<lambda>c. c \<noteq> 0x3B) (drop 5 u)"
  let ?rest = "dropWhile (\<lambda>c. c \<noteq> 0x3B) (drop 5 u)"
  from assms have s: "startsWith u (js ''data:'')" and g1: "?g1 \<noteq> []"
    and r: "startsWith ?rest (js '';base64,'')" and d: "dot_plus (drop 8 ?rest)"
    and g2: "g2 = drop 8 ?rest"
    by (auto simp: base64Match_def Let_def split: if_splits)
  have "u = js ''data:'' @ drop 5 u"
    using startsWith_drop [OF s] by (simp only: length_literals)
  moreover have "drop 5 u = ?g1 @ ?rest" by simp
  moreover have "?rest = js '';base64,'' @ g2"
    using startsWith_drop [OF r] g2 by (simp only: length_literals)
  ultimately have "u = js ''data:'' @ ?g1 @ js '';base64,'' @ g2" by metis
  with g1 d g2 list_all_takeWhile [of "\<lambda>c. c \<noteq> 0x3B" "drop 5 u"] show ?thesis
    unfolding base64_pattern_def by blast
qed

lemma base64Match_iff: "base64Match u = Some g2 \<longleftrightarrow> (\<exists>g1. base64_pattern u g1 g2)"
  using base64Match_pattern base64Match_Some by blast

lemma dataMatch_pattern:
  assumes "data_pattern u g1 g2"
  shows "dataMatch u = Some g2"
proof -
  from assms have u: "u = js ''data:'' @ g1 @ js '','' @ g2"
    and g1: "g1 \<noteq> []" "list_all (\<lambda>c. c \<noteq> 0x2C) g1" and g2: "dot_plus g2"
    by (simp_all add: data_pattern_def)
  have d: "drop 5 u = g1 @ 0x2C # g2"
    unfolding u js_comma by (simp add: length_literals)
  have t: "takeWhile (\<lambda>c. c \<noteq> 0x2C) (drop 5 u) = g1"
    unfolding d by (rule takeWhile_until [OF g1(2)]) simp
  have r: "dropWhile (\<lambda>c. c \<noteq> 0x2C) (drop 5 u) = js '','' @ g2"
    unfolding d js_comma using dropWhile_until [OF g1(2), of "0x2C"] by simp
  have s: "startsWith u (js ''data:'')"
    unfolding u by (simp add: startsWith_def)
  show ?thesis
    unfolding dataMatch_def t r using s g1(1) g2 by (simp add: startsWith_def length_literals)
qed

lemma dataMatch_Some:
  assumes "dataMatch u = Some g2"
  shows "\<exists>g1. data_pattern u g1 g2"
proof -
  let ?g1 = "takeWhile (\<lambda>c. c \<noteq> 0x2C) (drop 5 u)"
  let ?rest = "dropWhile (\<lambda>c. c \<noteq> 0x2C) (drop 5 u)"
  from assms have s: "startsWith u (js ''data:'')" and g1: "?g1 \<noteq> []"
    and r: "startsWith ?rest (js '','')" and d: "dot_plus (drop 1 ?rest)"
    and g2: "g2 = drop 1 ?rest"
    by (auto simp: dataMatch_def Let_def split: if_splits)
  have "u = js ''data:'' @ drop 5 u"
    using startsWith_drop [OF s] by (simp only: length_literals)
  moreover have "drop 5 u = ?g1 @ ?rest" by simp
  moreover have "?rest = js '','' @ g2"
    using startsWith_drop [OF r] g2 by (simp only: length_literals)
  ultimately have "u = js ''data:'' @ ?g1 @ js '','' @ g2" by metis
  with g1 d g2 list_all_takeWhile [of "\<lambda>c. c \<noteq> 0x2C" "drop 5 u"] show ?thesis
    unfolding data_pattern_def by blast
qed

lemma dataMatch_iff: "dataMatch u = Some g2 \<longleftrightarrow> (\<exists>g1. data_pattern u g1 g2)"
  using dataMatch_pattern dataMatch_Some by blast

section \<open>The size of a data URI\<close>

lemma escaped_octets_numeral:
  "escaped_octets 1 s = escaped_octets (Suc 0) s"
  "escaped_octets 2 s = escaped_octets (Suc (Suc 0)) s"
  "escaped_octets 3 s = escaped_octets (Suc (Suc (Suc 0))) s"
  by (simp_all add: numeral_2_eq_2 numeral_3_eq_3)

lemma decode_step_nonempty: "decode_step s = Some (S, rest) \<Longrightarrow> S \<noteq> []"
  by (auto simp: decode_step_def UTF16EncodeCodePoint_def split: list.splits if_splits option.splits)

lemma decodeURIComponent_nonempty:
  assumes "decodeURIComponent s = Some r" "s \<noteq> []"
  shows "r \<noteq> []"
  using assms decode_step_nonempty [of s]
  by (subst (asm) decodeURIComponent.simps) (auto split: option.splits)

lemma data_uri_size_base64:
  "base64Match u = Some g2 \<Longrightarrow> data_uri_size u = Inr (Num \<lceil>real (length g2 * 3) / 4\<rceil>)"
  by (simp add: data_uri_size_def)








section \<open>HEAD first, GET as the fallback\<close>

lemma head_size_ok:
  assumes "http_head net u = Response r" "head_status r = 200" "content_length r = Some cl" "cl \<noteq> []"
  shows "head_size net u = Inr (parseInt cl)"
  using assms by (simp add: head_size_def axios_head_def validateStatus_def truthy_def)

lemma head_size_Inr_iff: "(\<exists>n. head_size net u = Inr n) \<longleftrightarrow> head_ok net u"
  by (auto simp: head_size_def axios_head_def head_ok_def validateStatus_def
      split: http_result.splits if_splits)

lemma head_size_not_ok: "\<not> head_ok net u \<Longrightarrow> \<exists>e. head_size net u = Inl e"
  using head_size_Inr_iff [of net u] by (cases "head_size net u") auto

lemma get_size_ok:
  assumes "http_get net u = Response g" "get_status g = 200"
  shows "get_size net u = Inr (Num (int (byteLength g)))"
  using assms by (simp add: get_size_def axios_get_def validateStatus_def)

lemma get_size_not_ok:
  "\<not> get_ok net u \<Longrightarrow> get_size net u = Inr (Num 0) \<or> (\<exists>e. get_size net u = Inl e)"
  by (auto simp: get_size_def axios_get_def get_ok_def split: http_result.splits)

lemma sized_record_zero: "sized_record img (Num 0) = spread_with_size img (js ''Unknown'') (Num 0)"
  by (simp add: sized_record_def)

lemma probe_image_network:
  assumes "\<not> is_data_uri (url img)"
  shows "probe_image net img =
     (case head_size net (url img) of
        Inr n \<Rightarrow> ([HEAD (url img)], Inr (sized_record img n))
      | Inl e \<Rightarrow>
          ([HEAD (url img), GET (url img)],
           case get_size net (url img) of
             Inr n \<Rightarrow> Inr (sized_record img n)
           | Inl e' \<Rightarrow> Inr (spread_with_size img (js ''Unknown'') (Num 0))))"
  using assms
  by (simp add: probe_image_def sizeInBytes_of_def fetch_size_def is_data_uri_def split: sum.splits)

text \<open>
  Claim C6.  For an image whose URL is not a \<open>data:\<close> URI: when the \<open>HEAD\<close> response
  has status 200 and a content length, only \<open>HEAD\<close> is requested and the size is the
  parsed content length; the probe stops at \<open>HEAD\<close> in that case only, and in every
  other case it goes on to \<open>GET\<close>, whose body length is the size when its status is 200;
  when that fails too the probe is fulfilled with the size 0 and the display
  \<open>Unknown\<close>.  The size is the \<open>fileSizeBytes\<close> of the record the probe is fulfilled
  with.
\<close>

theorem probe_image_fallback:
  "\<not> is_data_uri (url img) \<longrightarrow>
     (http_head net (url img) = Response r \<and> head_status r = 200 \<and> content_length r = Some cl \<and> cl \<noteq> [] \<longrightarrow>
        probe_image net img = ([HEAD (url img)], Inr (sized_record img (parseInt cl))))
   \<and> (fst (probe_image net img) = [HEAD (url img)] \<longleftrightarrow> head_ok net (url img))
   \<and> (\<not> head_ok net (url img) \<longrightarrow> fst (probe_image net img) = [HEAD (url img), GET (url img)])
   \<and> (\<not> head_ok net (url img) \<and> http_get net (url img) = Response g \<and> get_status g = 200 \<longrightarrow>
        snd (probe_image net img) = Inr (sized_record img (Num (int (byteLength g)))))
   \<and> (\<not> head_ok net (url img) \<and> \<not> get_ok net (url img) \<longrightarrow>
        snd (probe_image net img) = Inr (spread_with_size img (js ''Unknown'') (Num 0)))
   \<and> (http_head net (url img) = Response r \<and> head_status r = 200 \<and> content_length r = Some cl \<and> cl \<noteq> [] \<longrightarrow>
        (\<exists>rec. snd (probe_image net img) = Inr rec \<and> fileSizeBytes rec = parseInt cl))
   \<and> (\<not> head_ok net (url img) \<and> http_get net (url img) = Response g \<and> get_status g = 200 \<longrightarrow>
        (\<exists>rec. snd (probe_image net img) = Inr rec \<and> fileSizeBytes rec = Num (int (byteLength g))))
   \<and> (\<not> head_ok net (url img) \<and> \<not> get_ok net (url img) \<longrightarrow>
        (\<exists>rec. snd (probe_image net img) = Inr rec
           \<and> fileSize rec = js ''Unknown'' \<and> fileSizeBytes rec = Num 0))"
proof
  assume nd: "\<not> is_data_uri (url img)"
  note p = probe_image_network [OF nd, of net]
  have 1: "probe_image net img = ([HEAD (url img)], Inr (sized_record img (parseInt cl)))"
    if "http_head net (url img) = Response r \<and> head_status r = 200 \<and> content_length r = Some cl \<and> cl \<noteq> []"
    using that head_size_ok [of net "url img" r cl] by (simp add: p)
  have 2: "fst (probe_image net img) = [HEAD (url img)] \<longleftrightarrow> head_ok net (url img)"
    using head_size_Inr_iff [of net "url img"]
    by (cases "head_size net (url img)") (auto simp: p)
  have 3: "fst (probe_image net img) = [HEAD (url img), GET (url img)]"
    if "\<not> head_ok net (url img)"
    using head_size_not_ok [OF that] by (auto simp: p)
  have 4: "snd (probe_image net img) = Inr (sized_record img (Num (int (byteLength g))))"
    if "\<not> head_ok net (url img) \<and> http_get net (url img) = Response g \<and> get_status g = 200"
    using that head_size_not_ok [of net "url img"] get_size_ok [of net "url img" g] by (auto simp: p)
  have 5: "snd (probe_image net img) = Inr (spread_with_size img (js ''Unknown'') (Num 0))"
    if "\<not> head_ok net (url img) \<and> \<not> get_ok net (url img)"
    using that head_size_not_ok [of net "url img"] get_size_not_ok [of net "url img"]
    by (auto simp: p sized_record_zero)
  have 6: "\<exists>rec. snd (probe_image net img) = Inr rec \<and> fileSizeBytes rec = parseInt cl"
    if "http_head net (url img) = Response r \<and> head_status r = 200 \<and> content_length r = Some cl \<and> cl \<noteq> []"
    using 1 [OF that] by (simp add: fileSizeBytes_sized_record)
  have 7: "\<exists>rec. snd (probe_image net img) = Inr rec \<and> fileSizeBytes rec = Num (int (byteLength g))"
    if "\<not> head_ok net (url img) \<and> http_get net (url img) = Response g \<and> get_status g = 200"
    using 4 [OF that] by (simp add: fileSizeBytes_sized_record)
  have 8: "\<exists>rec. snd (probe_image net img) = Inr rec
           \<and> fileSize rec = js ''Unknown'' \<and> fileSizeBytes rec = Num 0"
    if "\<not> head_ok net (url img) \<and> \<not> get_ok net (url img)"
    using 5 [OF that] by (simp add: spread_with_size_def)
  show "(http_head net (url img) = Response r \<and> head_status r = 200 \<and> content_length r = Some cl \<and> cl \<noteq> [] \<longrightarrow>
        probe_image net img = ([HEAD (url img)], Inr (sized_record img (parseInt cl))))
   \<and> (fst (probe_image net img) = [HEAD (url img)] \<longleftrightarrow> head_ok net (url img))
   \<and> (\<not> head_ok net (url img) \<longrightarrow> fst (probe_image net img) = [HEAD (url img), GET (url img)])
   \<and> (\<not> head_ok net (url img) \<and> http_get net (url img) = Response g \<and> get_status g = 200 \<longrightarrow>
        snd (probe_image net img) = Inr (sized_record img (Num (int (byteLength g)))))
   \<and> (\<not> head_ok net (url img) \<and> \<not> get_ok net (url img) \<longrightarrow>
        snd (probe_image net img) = Inr (spread_with_size img (js ''Unknown'') (Num 0)))
   \<and> (http_head net (url img) = Response r \<and> head_status r = 200 \<and> content_length r = Some cl \<and> cl \<noteq> [] \<longrightarrow>
        (\<exists>rec. snd (probe_image net img) = Inr rec \<and> fileSizeBytes rec = parseInt cl))
   \<and> (\<not> head_ok net (url img) \<and> http_get net (url img) = Response g \<and> get_status g = 200 \<longrightarrow>
        (\<exists>rec. snd (probe_image net img) = Inr rec \<and> fileSizeBytes rec = Num (int (byteLength g))))
   \<and> (\<not> head_ok net (url img) \<and> \<not> get_ok net (url img) \<longrightarrow>
        (\<exists>rec. snd (probe_image net img) = Inr rec
           \<and> fileSize rec = js ''Unknown'' \<and> fileSizeBytes rec = Num 0))"
    using 1 2 3 4 5 6 7 8 by blast
qed


lemma example_network_facts:
  "http_head example_network (js ''https://example.com/a.png'') =
     Response \<lparr>head_status = 200, content_length = Some (js ''2048'')\<rparr>"
  "\<not> head_ok example_network (js ''https://example.com/b.png'')"
  "http_get example_network (js ''https://example.com/b.png'') = Response \<lparr>get_status = 200, byteLength = 1536\<rparr>"
  "\<not> head_ok example_network (js ''https://example.com/c.png'')"
  "\<not> get_ok example_network (js ''https://example.com/c.png'')"
  "http_head example_network (js ''https://example.com/empty.png'') =
     Response \<lparr>head_status = 200, content_length = Some (js ''0'')\<rparr>"
  "head_ok example_network (js ''https://example.com/empty.png'')"
  by (simp_all add: example_network_def head_ok_def get_ok_def truthy_def js_def)

lemma example_urls:
  "url (example_image u a) = js u"
  "\<not> is_data_uri (js ''https://example.com/a.png'')"
  "\<not> is_data_uri (js ''https://example.com/b.png'')"
  "\<not> is_data_uri (js ''https://example.com/c.png'')"
  "\<not> is_data_uri (js ''https://example.com/empty.png'')"
  by (simp_all add: example_image_def is_data_uri_def startsWith_def js_def)

lemma parseInt_examples: "parseInt (js ''2048'') = Num 2048" "parseInt (js ''0'') = Num 0"
  by (simp_all add: parseInt_def js_def startsWith_def is_whitespace_def is_radix_digit_def
      digit_value_def radix_value_def)

theorem probe_image_fallback_witness:
  "probe_image example_network (example_image ''https://example.com/a.png'' ''A'') =
     ([HEAD (js ''https://example.com/a.png'')],
      Inr (sized_record (example_image ''https://example.com/a.png'' ''A'') (Num 2048)))
   \<and> probe_image example_network (example_image ''https://example.com/b.png'' ''B'') =
     ([HEAD (js ''https://example.com/b.png''), GET (js ''https://example.com/b.png'')],
      Inr (sized_record (example_image ''https://example.com/b.png'' ''B'') (Num 1536)))
   \<and> probe_image example_network (example_image ''https://example.com/c.png'' ''C'') =
     ([HEAD (js ''https://example.com/c.png''), GET (js ''https://example.com/c.png'')],
      Inr (spread_with_size (example_image ''https://example.com/c.png'' ''C'') (js ''Unknown'') (Num 0)))"
proof -
  have a: "probe_image example_network (example_image ''https://example.com/a.png'' ''A'') =
     ([HEAD (js ''https://example.com/a.png'')],
      Inr (sized_record (example_image ''https://example.com/a.png'' ''A'') (Num 2048)))"
    using probe_image_fallback [where img = "example_image ''https://example.com/a.png'' ''A''"
        and net = example_network and cl = "js ''2048''"
        and r = "\<lparr>head_status = 200, content_length = Some (js ''2048'')\<rparr>"]
      example_network_facts(1)
    by (simp add: example_urls parseInt_examples) (simp add: js_def)
  have b: "probe_image example_network (example_image ''https://example.com/b.png'' ''B'') =
     ([HEAD (js ''https://example.com/b.png''), GET (js ''https://example.com/b.png'')],
      Inr (sized_record (example_image ''https://example.com/b.png'' ''B'') (Num 1536)))"
    using probe_image_fallback [where img = "example_image ''https://example.com/b.png'' ''B''"
        and net = example_network and g = "\<lparr>get_status = 200, byteLength = 1536\<rparr>"]
      example_network_facts(2,3)
    by (simp add: example_urls prod_eq_iff)
  have c: "probe_image example_network (example_image ''https://example.com/c.png'' ''C'') =
     ([HEAD (js ''https://example.com/c.png''), GET (js ''https://example.com/c.png'')],
      Inr (spread_with_size (example_image ''https://example.com/c.png'' ''C'') (js ''Unknown'') (Num 0)))"
    using probe_image_fallback [where img = "example_image ''https://example.com/c.png'' ''C''"
        and net = example_network]
      example_network_facts(4,5)
    by (simp add: example_urls prod_eq_iff)
  from a b c show ?thesis by simp
qed

section \<open>The probe adds two fields and changes none\<close>

lemma probe_image_cases:
  "(\<exists>rq n. sizeInBytes_of net img = (rq, Inr n) \<and> probe_image net img = (rq, Inr (sized_record img n)))
   \<or> (\<exists>rq e. sizeInBytes_of net img = (rq, Inl e)
         \<and> probe_image net img = (rq, Inr (spread_with_size img (js ''Unknown'') (Num 0))))"
  by (cases "sizeInBytes_of net img") (auto simp: probe_image_def split: sum.splits)

lemma probe_image_Inr: "\<exists>r. snd (probe_image net img) = Inr r"
  using probe_image_cases [of net img] by auto

lemma spread_with_size_fields:
  "url (spread_with_size img fs fb) = url img"
  "width (spread_with_size img fs fb) = width img"
  "height (spread_with_size img fs fb) = height img"
  "alt (spread_with_size img fs fb) = alt img"
  "type (spread_with_size img fs fb) = type img"
  "fileSize (spread_with_size img fs fb) = fs"
  "fileSizeBytes (spread_with_size img fs fb) = fb"
  "image_record.truncate (spread_with_size img fs fb) = img"
  by (simp_all add: spread_with_size_def image_record.truncate_def)

lemma sized_record_spread: "\<exists>fs. sized_record img n = spread_with_size img fs n"
  by (auto simp: sized_record_def)

text \<open>
  Claim C10.  Whatever the probe of an image ends in, it is fulfilled with a record that
  has the \<open>url\<close>, \<open>width\<close>, \<open>height\<close>, \<open>alt\<close> and \<open>type\<close> of the image; without
  \<open>fileSize\<close> and \<open>fileSizeBytes\<close> it is the image record itself.
\<close>

theorem probe_image_frame:
  "\<exists>r. snd (probe_image net img) = Inr r
     \<and> url r = url img \<and> width r = width img \<and> height r = height img
     \<and> alt r = alt img \<and> type r = type img
     \<and> image_record.truncate r = img"
proof -
  from probe_image_cases [of net img] sized_record_spread [of img]
  obtain fs fb where "snd (probe_image net img) = Inr (spread_with_size img fs fb)"
    by (metis snd_conv)
  then show ?thesis
    by (simp add: spread_with_size_fields)
qed

theorem probe_image_frame_witness:
  "\<exists>r. snd (probe_image example_network (example_image ''https://example.com/b.png'' ''B'')) = Inr r
     \<and> url r = js ''https://example.com/b.png'' \<and> width r = js ''Natural'' \<and> height r = js ''Natural''
     \<and> alt r = js ''B'' \<and> type r = js ''img''"
proof -
  let ?img = "example_image ''https://example.com/b.png'' ''B''"
  from probe_image_frame [of example_network ?img]
  obtain r where "snd (probe_image example_network ?img) = Inr r"
    and "url r = url ?img" "width r = width ?img" "height r = height ?img"
    and "alt r = alt ?img" "type r = type ?img"
    by blast
  then show ?thesis
    by (auto simp: example_image_def)
qed

section \<open>One sized record per image\<close>

lemma promise_all_fulfilled:
  assumes "\<forall>x \<in> set xs. \<exists>r. g x = Inr r"
  shows "\<exists>rs. promise_all (map g xs) = Inr rs \<and> length rs = length xs
           \<and> (\<forall>i < length xs. g (xs ! i) = Inr (rs ! i))"
  using assms
proof (induction xs)
  case Nil
  then show ?case by simp
next
  case (Cons x xs)
  then obtain rs where rs: "promise_all (map g xs) = Inr rs" "length rs = length xs"
    "\<forall>i < length xs. g (xs ! i) = Inr (rs ! i)"
    by auto
  from Cons.prems obtain r where r: "g x = Inr r" by auto
  have "promise_all (map g (x # xs)) = Inr (r # rs)"
    by (simp add: r rs(1))
  moreover have "\<forall>i < length (x # xs). g ((x # xs) ! i) = Inr ((r # rs) ! i)"
    using r rs(3) by (auto simp: nth_Cons split: nat.splits)
  ultimately show ?case using rs(2) by auto
qed

lemma probe_image_local:
  assumes "http_head net' (url img) = http_head net (url img)"
    and "http_get net' (url img) = http_get net (url img)"
  shows "probe_image net' img = probe_image net img"
proof -
  have "head_size net' (url img) = head_size net (url img)"
    using assms(1) by (simp add: head_size_def axios_head_def)
  moreover have "get_size net' (url img) = get_size net (url img)"
    using assms(2) by (simp add: get_size_def axios_get_def)
  ultimately have "fetch_size net' (url img) = fetch_size net (url img)"
    by (simp add: fetch_size_def split: sum.splits)
  then have "sizeInBytes_of net' img = sizeInBytes_of net img"
    by (simp add: sizeInBytes_of_def)
  then show ?thesis
    by (simp add: probe_image_def)
qed

text \<open>
  Claim C7.  For every list of image records the join of the probes is fulfilled, with
  exactly one sized record per image, in order: the record of the probe of that image.
  A probe that throws yields the record of its image with \<open>fileSize\<close> \<open>Unknown\<close> and
  \<open>fileSizeBytes\<close> 0, and the record of an image is the same under every network that
  answers the requests for that image's URL in the same way, whatever happens to the
  other probes.
\<close>

theorem imagesWithSizes_complete:
  "\<exists>sized. imagesWithSizes net images = Inr sized \<and> length sized = length images
     \<and> (\<forall>i < length images.
           snd (probe_image net (images ! i)) = Inr (sized ! i)
           \<and> (\<forall>rq e. sizeInBytes_of net (images ! i) = (rq, Inl e) \<longrightarrow>
                 fileSize (sized ! i) = js ''Unknown'' \<and> fileSizeBytes (sized ! i) = Num 0
                 \<and> image_record.truncate (sized ! i) = images ! i)
           \<and> (\<forall>net'. http_head net' (url (images ! i)) = http_head net (url (images ! i))
                      \<and> http_get net' (url (images ! i)) = http_get net (url (images ! i)) \<longrightarrow>
                 snd (probe_image net' (images ! i)) = Inr (sized ! i)))"
proof -
  have "\<forall>img \<in> set images. \<exists>r. snd (probe_image net img) = Inr r"
    by (simp add: probe_image_Inr)
  from promise_all_fulfilled [OF this]
  obtain sized where s: "imagesWithSizes net images = Inr sized" "length sized = length images"
    and p: "\<forall>i < length images. snd (probe_image net (images ! i)) = Inr (sized ! i)"
    unfolding imagesWithSizes_def by blast
  have "fileSize (sized ! i) = js ''Unknown'' \<and> fileSizeBytes (sized ! i) = Num 0
        \<and> image_record.truncate (sized ! i) = images ! i"
    if "i < length images" "sizeInBytes_of net (images ! i) = (rq, Inl e)" for i rq e
  proof -
    from that(2) have "snd (probe_image net (images ! i)) =
        Inr (spread_with_size (images ! i) (js ''Unknown'') (Num 0))"
      by (simp add: probe_image_def)
    with p that(1) have "sized ! i = spread_with_size (images ! i) (js ''Unknown'') (Num 0)"
      by simp
    then show ?thesis by (simp add: spread_with_size_fields)
  qed
  moreover have "snd (probe_image net' (images ! i)) = Inr (sized ! i)"
    if "i < length images" "http_head net' (url (images ! i)) = http_head net (url (images ! i))
        \<and> http_get net' (url (images ! i)) = http_get net (url (images ! i))" for i net'
    using that p probe_image_local [of net' "images ! i" net] by simp
  ultimately show ?thesis
    using s p by blast
qed


lemma example_sizes:
  "sizeInBytes_of example_network (example_image ''https://example.com/a.png'' ''A'') =
     ([HEAD (js ''https://example.com/a.png'')], Inr (Num 2048))"
  "sizeInBytes_of example_network (example_image ''https://example.com/b.png'' ''B'') =
     ([HEAD (js ''https://example.com/b.png''), GET (js ''https://example.com/b.png'')], Inr (Num 1536))"
  "sizeInBytes_of example_network (example_image ''https://example.com/c.png'' ''C'') =
     ([HEAD (js ''https://example.com/c.png''), GET (js ''https://example.com/c.png'')],
      Inl (Error (js ''timeout of 15000ms exceeded'')))"
  "sizeInBytes_of example_network (example_image ''https://example.com/empty.png'' ''E'') =
     ([HEAD (js ''https://example.com/empty.png'')], Inr (Num 0))"
proof -
  have h: "head_size example_network (js ''https://example.com/a.png'') = Inr (Num 2048)"
    "head_size example_network (js ''https://example.com/empty.png'') = Inr (Num 0)"
    using head_size_ok [OF example_network_facts(1)] head_size_ok [OF example_network_facts(6)]
    by (simp_all add: parseInt_examples) (simp_all add: js_def)
  have n: "\<exists>e. head_size example_network (js ''https://example.com/b.png'') = Inl e"
    "\<exists>e. head_size example_network (js ''https://example.com/c.png'') = Inl e"
    using example_network_facts(2,4) by (simp_all add: head_size_not_ok)
  have g: "get_size example_network (js ''https://example.com/b.png'') = Inr (Num 1536)"
    using get_size_ok [OF example_network_facts(3)] by simp
  have t: "get_size example_network (js ''https://example.com/c.png'') =
      Inl (Error (js ''timeout of 15000ms exceeded''))"
    by (simp add: get_size_def axios_get_def example_network_def js_def)
  show "sizeInBytes_of example_network (example_image ''https://example.com/a.png'' ''A'') =
     ([HEAD (js ''https://example.com/a.png'')], Inr (Num 2048))"
    using example_urls(2) by (simp add: sizeInBytes_of_def fetch_size_def example_urls(1) h is_data_uri_def)
  show "sizeInBytes_of example_network (example_image ''https://example.com/b.png'' ''B'') =
     ([HEAD (js ''https://example.com/b.png''), GET (js ''https://example.com/b.png'')], Inr (Num 1536))"
    using example_urls(3) n(1) by (auto simp: sizeInBytes_of_def fetch_size_def example_urls(1) g is_data_uri_def)
  show "sizeInBytes_of example_network (example_image ''https://example.com/c.png'' ''C'') =
     ([HEAD (js ''https://example.com/c.png''), GET (js ''https://example.com/c.png'')],
      Inl (Error (js ''timeout of 15000ms exceeded'')))"
    using example_urls(4) n(2) by (auto simp: sizeInBytes_of_def fetch_size_def example_urls(1) t is_data_uri_def)
  show "sizeInBytes_of example_network (example_image ''https://example.com/empty.png'' ''E'') =
     ([HEAD (js ''https://example.com/empty.png'')], Inr (Num 0))"
    using example_urls(5) by (simp add: sizeInBytes_of_def fetch_size_def example_urls(1) h is_data_uri_def)
qed

theorem imagesWithSizes_complete_witness:
  "\<exists>sized. imagesWithSizes example_network
       [example_image ''https://example.com/a.png'' ''A'',
        example_image ''https://example.com/c.png'' ''C'',
        example_image ''https://example.com/b.png'' ''B''] = Inr sized
     \<and> length sized = 3
     \<and> fileSizeBytes (sized ! 0) = Num 2048
     \<and> fileSize (sized ! 1) = js ''Unknown'' \<and> fileSizeBytes (sized ! 1) = Num 0
     \<and> fileSizeBytes (sized ! 2) = Num 1536"
proof -
  let ?images = "[example_image ''https://example.com/a.png'' ''A'',
        example_image ''https://example.com/c.png'' ''C'',
        example_image ''https://example.com/b.png'' ''B'']"
  from imagesWithSizes_complete [of example_network ?images]
  obtain sized where s: "imagesWithSizes example_network ?images = Inr sized" "length sized = length ?images"
    and p: "\<forall>i < length ?images.
           snd (probe_image example_network (?images ! i)) = Inr (sized ! i)
           \<and> (\<forall>rq e. sizeInBytes_of example_network (?images ! i) = (rq, Inl e) \<longrightarrow>
                 fileSize (sized ! i) = js ''Unknown'' \<and> fileSizeBytes (sized ! i) = Num 0
                 \<and> image_record.truncate (sized ! i) = ?images ! i)"
    by blast
  have 0: "snd (probe_image example_network (?images ! 0)) = Inr (sized ! 0)"
    using p [THEN spec, of 0] by simp
  have 2: "snd (probe_image example_network (?images ! 2)) = Inr (sized ! 2)"
    using p [THEN spec, of 2] by simp
  from 0 have "sized ! 0 = sized_record (?images ! 0) (Num 2048)"
    by (simp add: probe_image_def example_sizes)
  then have a: "fileSizeBytes (sized ! 0) = Num 2048"
    by (simp only: fileSizeBytes_sized_record)
  from 2 have "sized ! 2 = sized_record (?images ! 2) (Num 1536)"
    by (simp add: probe_image_def example_sizes)
  then have b: "fileSizeBytes (sized ! 2) = Num 1536"
    by (simp only: fileSizeBytes_sized_record)
  have "\<forall>rq e. sizeInBytes_of example_network (?images ! 1) = (rq, Inl e) \<longrightarrow>
      fileSize (sized ! 1) = js ''Unknown'' \<and> fileSizeBytes (sized ! 1) = Num 0"
    using p [THEN spec, of 1] by simp
  then have c: "fileSize (sized ! 1) = js ''Unknown'' \<and> fileSizeBytes (sized ! 1) = Num 0"
    by (simp add: example_sizes)
  from s a b c show ?thesis by simp
qed

section \<open>Unknown sizes\<close>

lemma unit_suffix_not_Unknown:
  "x @ js '' MB'' \<noteq> js ''Unknown''" "x @ js '' KB'' \<noteq> js ''Unknown''"
proof -
  have "last (x @ js '' MB'') \<noteq> last (js ''Unknown'')" "last (x @ js '' KB'') \<noteq> last (js ''Unknown'')"
    by (simp_all add: js_def)
  then show "x @ js '' MB'' \<noteq> js ''Unknown''" "x @ js '' KB'' \<noteq> js ''Unknown''"
    by metis+
qed

lemma sized_record_Unknown_iff: "fileSize (sized_record img s) = js ''Unknown'' \<longleftrightarrow> s = Num 0"
  by (simp add: fileSize_sized_record unit_suffix_not_Unknown)

lemma dot_plus_nonempty: "dot_plus s \<Longrightarrow> s \<noteq> []"
  by (simp add: dot_plus_def)

lemma base64Match_nonempty: "base64Match u = Some p \<Longrightarrow> p \<noteq> []"
  by (auto simp: base64Match_def Let_def dot_plus_def split: if_splits)

lemma dataMatch_nonempty: "dataMatch u = Some p \<Longrightarrow> p \<noteq> []"
  by (auto simp: dataMatch_def Let_def dot_plus_def split: if_splits)

lemma base64_size_positive: "p \<noteq> [] \<Longrightarrow> \<lceil>real (length p * 3) / 4\<rceil> \<noteq> 0"
proof -
  assume "p \<noteq> []"
  then have "0 < real (length p * 3) / 4" by simp
  then have "0 < \<lceil>real (length p * 3) / 4\<rceil>" by (simp only: zero_less_ceiling)
  then show ?thesis by linarith
qed

lemma data_uri_size_zero:
  assumes "is_data_uri (url img)"
  shows "(\<exists>e. data_uri_size (url img) = Inl e) \<or> data_uri_size (url img) = Inr (Num 0)
           \<longleftrightarrow> size_determination_failed net img"
proof (cases "base64Match (url img)")
  case (Some p)
  with base64Match_nonempty [OF Some] base64_size_positive [of p] assms show ?thesis
    by (simp add: data_uri_size_def size_determination_failed_def)
next
  case None
  note b = None
  show ?thesis
  proof (cases "dataMatch (url img)")
    case None
    with b assms show ?thesis
      by (simp add: data_uri_size_def size_determination_failed_def)
  next
    case (Some p)
    note d = Some
    show ?thesis
    proof (cases "decodeURIComponent p")
      case None
      with b d assms show ?thesis
        by (simp add: data_uri_size_def size_determination_failed_def)
    next
      case (Some decoded)
      with decodeURIComponent_nonempty [OF Some dataMatch_nonempty [OF d]] b d assms show ?thesis
        by (simp add: data_uri_size_def size_determination_failed_def)
    qed
  qed
qed

lemma probe_image_data:
  assumes "is_data_uri (url img)"
  shows "snd (probe_image net img) =
     (case data_uri_size (url img) of
        Inr n \<Rightarrow> Inr (sized_record img n)
      | Inl e \<Rightarrow> Inr (spread_with_size img (js ''Unknown'') (Num 0)))"
  using assms by (simp add: probe_image_def sizeInBytes_of_def is_data_uri_def split: sum.splits)

lemma head_ok_response:
  "head_ok net u \<longleftrightarrow>
     (\<exists>h cl. http_head net u = Response h \<and> head_status h = 200 \<and> content_length h = Some cl \<and> cl \<noteq> [])"
  by (auto simp: head_ok_def truthy_def split: http_result.splits option.splits)

lemma get_ok_response:
  "get_ok net u \<longleftrightarrow> (\<exists>g. http_get net u = Response g \<and> get_status g = 200)"
  by (auto simp: get_ok_def split: http_result.splits)

text \<open>
  Claim C8, amended.  The record a probe is fulfilled with has \<open>fileSize\<close> \<open>Unknown\<close>
  exactly when its \<open>fileSizeBytes\<close> is 0.  \<open>fileSizeBytes\<close> is 0 exactly in these
  cases: the size determination failed or was unknowable; or the size was determined and
  is 0, that is, the content length of a usable \<open>HEAD\<close> response parses to 0, or no
  \<open>HEAD\<close> response was usable and the body of the \<open>GET\<close> response with status 200 is
  empty.
\<close>

theorem unknown_iff_zero:
  "\<exists>r. snd (probe_image net img) = Inr r
     \<and> (fileSize r = js ''Unknown'' \<longleftrightarrow> fileSizeBytes r = Num 0)
     \<and> (size_determination_failed net img \<longrightarrow> fileSizeBytes r = Num 0)
     \<and> (fileSizeBytes r = Num 0 \<longleftrightarrow>
          size_determination_failed net img
          \<or> (\<not> is_data_uri (url img) \<and>
              (\<exists>h cl. http_head net (url img) = Response h \<and> head_status h = 200
                 \<and> content_length h = Some cl \<and> cl \<noteq> [] \<and> parseInt cl = Num 0))
          \<or> (\<not> is_data_uri (url img) \<and> \<not> head_ok net (url img) \<and>
              (\<exists>g. http_get net (url img) = Response g \<and> get_status g = 200 \<and> byteLength g = 0)))"
proof (cases "is_data_uri (url img)")
  case True
  note z = data_uri_size_zero [OF True, of net]
  show ?thesis
  proof (cases "data_uri_size (url img)")
    case (Inl e)
    with z have "size_determination_failed net img" by auto
    with Inl show ?thesis
      by (simp add: probe_image_data [OF True] spread_with_size_fields)
  next
    case (Inr n)
    with z have "n = Num 0 \<longleftrightarrow> size_determination_failed net img" by auto
    with Inr True show ?thesis
      by (simp add: probe_image_data [OF True] fileSizeBytes_sized_record sized_record_Unknown_iff)
  qed
next
  case False
  note p = probe_image_network [OF False, of net]
  show ?thesis
  proof (cases "head_size net (url img)")
    case (Inr n)
    then have ok: "head_ok net (url img)"
      using head_size_Inr_iff [of net "url img"] by auto
    then obtain h cl where h: "http_head net (url img) = Response h" "head_status h = 200"
      "content_length h = Some cl" "cl \<noteq> []"
      unfolding head_ok_response by blast
    with Inr have n: "n = parseInt cl"
      using head_size_ok [OF h] by simp
    from ok False have nf: "\<not> size_determination_failed net img"
      by (simp add: size_determination_failed_def)
    from Inr have "snd (probe_image net img) = Inr (sized_record img n)"
      by (simp add: p)
    with nf False h n ok show ?thesis
      by (auto simp: fileSizeBytes_sized_record sized_record_Unknown_iff)
  next
    case (Inl e)
    then have nok: "\<not> head_ok net (url img)"
      using head_size_Inr_iff [of net "url img"] by auto
    show ?thesis
    proof (cases "get_ok net (url img)")
      case True
      then obtain g where g: "http_get net (url img) = Response g" "get_status g = 200"
        unfolding get_ok_response by blast
      from True False have nf: "\<not> size_determination_failed net img"
        by (simp add: size_determination_failed_def)
      from Inl get_size_ok [OF g]
      have "snd (probe_image net img) = Inr (sized_record img (Num (int (byteLength g))))"
        by (simp add: p)
      with nf False nok nok [unfolded head_ok_response] g show ?thesis
        by (auto simp: fileSizeBytes_sized_record sized_record_Unknown_iff)
    next
      case False
      with nok \<open>\<not> is_data_uri (url img)\<close> have f: "size_determination_failed net img"
        by (simp add: size_determination_failed_def)
      from Inl get_size_not_ok [OF False]
      have "snd (probe_image net img) = Inr (spread_with_size img (js ''Unknown'') (Num 0))"
        by (auto simp: p sized_record_zero)
      with f show ?thesis
        by (simp add: spread_with_size_fields)
    qed
  qed
qed

text \<open>
  The claim as stated fails where the size is determined and is 0: \<open>empty.png\<close> answers
  \<open>HEAD\<close> with status 200 and a content length of 0, nothing failed, and the record
  says \<open>Unknown\<close> and 0.
\<close>

theorem unknown_iff_zero_counterexample:
  "\<not> size_determination_failed example_network (example_image ''https://example.com/empty.png'' ''E'')
   \<and> probe_image example_network (example_image ''https://example.com/empty.png'' ''E'') =
       ([HEAD (js ''https://example.com/empty.png'')],
        Inr (spread_with_size (example_image ''https://example.com/empty.png'' ''E'') (js ''Unknown'') (Num 0)))
   \<and> fileSizeBytes (spread_with_size (example_image ''https://example.com/empty.png'' ''E'') (js ''Unknown'') (Num 0)) = Num 0"
  using example_network_facts(7) example_urls(5)
  by (simp add: size_determination_failed_def example_urls(1) probe_image_def example_sizes
      sized_record_zero spread_with_size_fields)

theorem unknown_iff_zero_witness:
  "(\<exists>r. snd (probe_image example_network (example_image ''https://example.com/c.png'' ''C'')) = Inr r
      \<and> fileSize r = js ''Unknown'' \<and> fileSizeBytes r = Num 0)
   \<and> (\<exists>r. snd (probe_image example_network (example_image ''https://example.com/empty.png'' ''E'')) = Inr r
      \<and> fileSize r = js ''Unknown'' \<and> fileSizeBytes r = Num 0)"
proof -
  let ?img = "example_image ''https://example.com/c.png'' ''C''"
  have f: "size_determination_failed example_network ?img"
    using example_network_facts(4,5) example_urls(4)
    by (simp add: size_determination_failed_def example_urls(1))
  from unknown_iff_zero [of example_network ?img]
  obtain r where "snd (probe_image example_network ?img) = Inr r"
    and "fileSize r = js ''Unknown'' \<longleftrightarrow> fileSizeBytes r = Num 0"
    and "size_determination_failed example_network ?img \<longrightarrow> fileSizeBytes r = Num 0"
    by blast
  with f have c: "\<exists>r. snd (probe_image example_network ?img) = Inr r
      \<and> fileSize r = js ''Unknown'' \<and> fileSizeBytes r = Num 0"
    by blast
  let ?e = "example_image ''https://example.com/empty.png'' ''E''"
  have z: "\<not> is_data_uri (url ?e) \<and>
      (\<exists>h cl. http_head example_network (url ?e) = Response h \<and> head_status h = 200
         \<and> content_length h = Some cl \<and> cl \<noteq> [] \<and> parseInt cl = Num 0)"
    using example_network_facts(6) example_urls(5) parseInt_examples(2)
    by (simp add: example_urls(1)) (simp add: js_def)
  from unknown_iff_zero [of example_network ?e]
  obtain r' where "snd (probe_image example_network ?e) = Inr r'"
    and "fileSize r' = js ''Unknown'' \<longleftrightarrow> fileSizeBytes r' = Num 0"
    and "fileSizeBytes r' = Num 0 \<longleftrightarrow>
          size_determination_failed example_network ?e
          \<or> (\<not> is_data_uri (url ?e) \<and>
              (\<exists>h cl. http_head example_network (url ?e) = Response h \<and> head_status h = 200
                 \<and> content_length h = Some cl \<and> cl \<noteq> [] \<and> parseInt cl = Num 0))
          \<or> (\<not> is_data_uri (url ?e) \<and> \<not> head_ok example_network (url ?e) \<and>
              (\<exists>g. http_get example_network (url ?e) = Response g \<and> get_status g = 200 \<and> byteLength g = 0))"
    by blast
  with z have "\<exists>r. snd (probe_image example_network ?e) = Inr r
      \<and> fileSize r = js ''Unknown'' \<and> fileSizeBytes r = Num 0"
    by blast
  with c show ?thesis by blast
qed

section \<open>Render failures and the release of pages\<close>

lemma imagesWithSizes_Inr: "\<exists>sized. imagesWithSizes net images = Inr sized \<and> length sized = length images"
  using promise_all_fulfilled [of images "\<lambda>img. snd (probe_image net img)"] probe_image_Inr
  unfolding imagesWithSizes_def by blast

text \<open>
  A render failure on the desktop viewport: the page is open and \<open>mobilePage\<close> is still
  \<open>null\<close>, so the \<open>catch\<close> block closes the page and sends the error.
\<close>

lemma scrape_desktop_failure:
  assumes "truthy body_url" "launch b = None" "newPage b Desktop = None" "render b Desktop = Inl e"
  shows "scrape b net body_url =
     \<lparr>response = Some (500, ErrorBody (js ''Failed to scrape images: '' @ message e)),
      left_open = {}, uncaught = None\<rparr>"
  using assms by (simp add: scrape_def try_block_def catch_block_def close_page_def)

text \<open>Both renders succeed: both pages are closed, each once, and the images are sent.\<close>

lemma scrape_success:
  assumes "truthy body_url" "launch b = None" "newPage b Desktop = None" "newPage b Mobile = None"
    and "render b Desktop = Inr d" "render b Mobile = Inr m"
  shows "\<exists>sized. scrape b net body_url =
     \<lparr>response = Some (200, ImagesBody sized (length (fst (merge_viewports d m)))),
      left_open = {}, uncaught = None\<rparr>"
proof -
  obtain sized where s: "imagesWithSizes net (fst (merge_viewports d m)) = Inr sized"
    "length sized = length (fst (merge_viewports d m))"
    using imagesWithSizes_Inr by blast
  with assms have "scrape b net body_url =
     \<lparr>response = Some (200, ImagesBody sized (length (fst (merge_viewports d m)))),
      left_open = {}, uncaught = None\<rparr>"
    by (simp add: scrape_def try_block_def close_page_def)
  then show ?thesis by blast
qed

text \<open>
  A render failure on the mobile viewport: \<open>desktopPage\<close> is set and its page is closed
  already (line 220), so the \<open>catch\<close> block calls \<open>close()\<close> on a closed page first.
  When that call returns, the mobile page is closed and the error is sent.
\<close>

lemma scrape_mobile_failure_reclose_returns:
  assumes "truthy body_url" "launch b = None" "newPage b Desktop = None" "newPage b Mobile = None"
    and "render b Desktop = Inr d" "render b Mobile = Inl e" "reclose b = None"
  shows "scrape b net body_url =
     \<lparr>response = Some (500, ErrorBody (js ''Failed to scrape images: '' @ message e)),
      left_open = {}, uncaught = None\<rparr>"
  using assms by (simp add: scrape_def try_block_def catch_block_def close_page_def)

text \<open>
  When the call throws, the \<open>catch\<close> block is left at its first statement: the mobile
  page stays open and no response is sent.
\<close>

lemma scrape_mobile_failure_reclose_throws:
  assumes "truthy body_url" "launch b = None" "newPage b Desktop = None" "newPage b Mobile = None"
    and "render b Desktop = Inr d" "render b Mobile = Inl e" "reclose b = Some e'"
  shows "scrape b net body_url = \<lparr>response = None, left_open = {Mobile}, uncaught = Some e'\<rparr>"
  using assms by (simp add: scrape_def try_block_def catch_block_def close_page_def)

text \<open>
  Claim C9, at the input where it fails.  In the releases of Puppeteer that have
  \<open>waitForTimeout\<close>, which the handler calls, \<open>Page.close()\<close> on a page that is closed
  already throws ``Protocol error: Connection closed. Most likely the page has been
  closed.''; the parameter \<open>reclose\<close> carries that error.  With the desktop pass done
  and the mobile navigation timing out, the request ends without a response, with the
  mobile page open and the handler's promise rejected with the error of the second
  \<open>close()\<close>.
\<close>

theorem scrape_mobile_failure_leak:
  "scrape
     (example_browser
        (Inr [example_image ''https://example.com/a.png'' ''A''])
        (Inl (Error (js ''Navigation timeout of 30000 ms exceeded'')))
        (Some (Error (js ''Protocol error: Connection closed. Most likely the page has been closed.''))))
     example_network (Some (js ''https://example.com/gallery/''))
   = \<lparr>response = None, left_open = {Mobile},
      uncaught = Some (Error (js ''Protocol error: Connection closed. Most likely the page has been closed.''))\<rparr>"
  by (rule scrape_mobile_failure_reclose_throws)
     (simp_all add: example_browser_def truthy_def js_def)

lemma scrape_desktop_failure_example:
  "scrape
     (example_browser
        (Inl (Error (js ''Navigation timeout of 30000 ms exceeded'')))
        (Inr [])
        (Some (Error (js ''Protocol error: Connection closed. Most likely the page has been closed.''))))
     example_network (Some (js ''https://example.com/gallery/''))
   = \<lparr>response = Some (500, ErrorBody (js ''Failed to scrape images: Navigation timeout of 30000 ms exceeded'')),
      left_open = {}, uncaught = None\<rparr>"
proof -
  have "js ''Failed to scrape images: '' @ js ''Navigation timeout of 30000 ms exceeded'' =
      js ''Failed to scrape images: Navigation timeout of 30000 ms exceeded''"
    by (simp add: js_def)
  then show ?thesis
    using scrape_desktop_failure [of "Some (js ''https://example.com/gallery/'')"
        "example_browser
        (Inl (Error (js ''Navigation timeout of 30000 ms exceeded'')))
        (Inr [])
        (Some (Error (js ''Protocol error: Connection closed. Most likely the page has been closed.'')))"
        "Error (js ''Navigation timeout of 30000 ms exceeded'')" example_network]
    by (simp add: example_browser_def truthy_def) (simp add: js_def)
qed

end
